(* ===== verification/Prelude.thy ===== *)
theory Prelude
  imports Main "HOL-Library.Mapping" "HOL-Library.AList_Mapping" "HOL-Library.Word" "HOL-Library.Monad_Syntax"
    "HOL-Library.Multiset" "HOL-Library.Sublist"
begin

text \<open>
  Shared vocabulary of the model of \<^verbatim>\<open>src/main.rs\<close>: the types of keys and
  values (Rust \<^verbatim>\<open>String\<close>, modelled as byte strings), the panics the program can
  raise (\<^verbatim>\<open>unwrap\<close> on \<^verbatim>\<open>None\<close> and \<^verbatim>\<open>expect\<close> with its message), the
  result type of code that may panic, and the generic lemmas on mappings and lists
  that the component theories share.
\<close>

type_synonym key = string
type_synonym val = string

text \<open>
  A Rust panic of the program. \<^verbatim>\<open>Option::unwrap\<close> on \<^verbatim>\<open>None\<close> panics with a
  fixed message; \<^verbatim>\<open>Option::expect(msg)\<close> and \<^verbatim>\<open>Result::expect(msg)\<close> panic with
  \<open>msg\<close>; an overflowing \<^verbatim>\<open>i32\<close> subtraction panics with
  \<^verbatim>\<open>attempt to subtract with overflow\<close> (the overflow checks of a debug build).
\<close>

datatype panic = Unwrap_none | Expect_failed string | Sub_overflow

type_synonym 'a outcome = "panic + 'a"

abbreviation nl :: char where
  "nl \<equiv> CHR ''\<newline>''"

named_theorems store_simps "rewrite rules of the multimap operations"
named_theorems console_simps "rewrite rules of the console actions"

subsection \<open>Mappings\<close>

lemma lookup_delete':
  "Mapping.lookup (Mapping.delete k m) k' = (if k = k' then None else Mapping.lookup m k')"
  by simp

lemma All_mapping_lookupD:
  "All_mapping m P \<Longrightarrow> Mapping.lookup m k = Some v \<Longrightarrow> P k v"
  unfolding All_mapping_def by (metis option.simps(5))

lemma All_mapping_lookup_iff:
  "All_mapping m P \<longleftrightarrow> (\<forall>k v. Mapping.lookup m k = Some v \<longrightarrow> P k v)"
  unfolding All_mapping_def by (auto split: option.splits)

lemma All_mapping_delete [intro]:
  "All_mapping m P \<Longrightarrow> All_mapping (Mapping.delete k m) P"
  by (auto simp: All_mapping_lookup_iff lookup_delete' split: if_splits)

lemma All_mapping_update_same [intro]:
  "All_mapping m P \<Longrightarrow> P k v \<Longrightarrow> All_mapping (Mapping.update k v m) P"
  by (auto simp: All_mapping_lookup_iff lookup_update')

lemma keys_lookup_Some:
  "k \<in> Mapping.keys m \<longleftrightarrow> (\<exists>v. Mapping.lookup m k = Some v)"
  by (auto simp: keys_is_none_rep Option.is_none_def)

subsection \<open>Words\<close>

lemma sint_minus_one:
  "- (2 ^ 31) < sint (n :: 32 word) \<Longrightarrow> sint (n - 1) = sint n - 1"
  using sint_lt [of n] by (simp add: sint_word_ariths signed_take_bit_int_eq_self)

subsection \<open>Sums\<close>

lemma map_sum_eq_Inr [simp]: "map_sum f g x = Inr y \<longleftrightarrow> (\<exists>z. x = Inr z \<and> y = g z)"
  by (cases x) auto

lemma map_sum_eq_Inl [simp]: "map_sum f g x = Inl y \<longleftrightarrow> (\<exists>z. x = Inl z \<and> y = f z)"
  by (cases x) auto

subsection \<open>Lists\<close>

lemma map_filter_Cons_Some [simp]:
  "f x = Some y \<Longrightarrow> List.map_filter f (x # xs) = y # List.map_filter f xs"
  by (simp add: List.map_filter_def)

lemma map_filter_Cons_None [simp]:
  "f x = None \<Longrightarrow> List.map_filter f (x # xs) = List.map_filter f xs"
  by (simp add: List.map_filter_def)

lemma filter_const: "filter (\<lambda>_. P) xs = (if P then xs else [])"
  by simp

lemma map_if_Nil: "map f (if P then xs else []) = (if P then map f xs else [])"
  by simp

lemma concat_map_nth_split:
  "i < length xs \<Longrightarrow>
   concat (map f xs) = concat (map f (take i xs)) @ f (xs ! i) @ concat (map f (drop (Suc i) xs))"
  by (metis append_take_drop_id Cons_nth_drop_Suc concat.simps(2) concat_append map_append list.map(2))

lemma map_filter_Nil [simp]: "List.map_filter f [] = []"
  by (simp add: List.map_filter_def)

end
