(* ===== verification/Store.thy ===== *)
theory Store
  imports Prelude
begin

text \<open>
  The store of \<^verbatim>\<open>src/main.rs\<close> is a \<^verbatim>\<open>MultiMap<String, String>\<close> of the
  \<^verbatim>\<open>multimap\<close> crate, which wraps a \<^verbatim>\<open>HashMap<K, Vec<V>>\<close>. It is modelled
  as a mapping from keys to value lists; each crate method the program calls is one
  definition. The crate is not part of the repository, so these definitions follow the
  crate's documented behaviour. The hash map's iteration order is not a function of the
  model: it is a parameter \<open>ks\<close>, any list of the keys without repetition
  (\<open>mm_iteration_order\<close>). The theory also holds the invariant that no key holds an
  empty vector (\<open>mm_wf\<close>), the abstract store of the specification (a total function
  from keys to value lists, \<open>mm_abs\<close>) and the refinement lemmas that relate them.
\<close>

type_synonym multimap = "(key, val list) mapping"

subsection \<open>Operations of \<^verbatim>\<open>MultiMap\<close>\<close>

definition mm_new :: multimap where
  "mm_new = Mapping.empty"

text \<open>\<^verbatim>\<open>insert\<close>: push onto the key's vector, or create the vector \<^verbatim>\<open>vec![v]\<close>.\<close>

definition mm_insert :: "key \<Rightarrow> val \<Rightarrow> multimap \<Rightarrow> multimap" where
  "mm_insert k v m =
     (case Mapping.lookup m k of
        Some vs \<Rightarrow> Mapping.update k (vs @ [v]) m
      | None \<Rightarrow> Mapping.update k [v] m)"

definition mm_contains_key :: "multimap \<Rightarrow> key \<Rightarrow> bool" where
  "mm_contains_key m k \<longleftrightarrow> Mapping.lookup m k \<noteq> None"

definition mm_get_vec :: "multimap \<Rightarrow> key \<Rightarrow> val list option" where
  "mm_get_vec m k = Mapping.lookup m k"

text \<open>
  \<^verbatim>\<open>get_mut(k)\<close> returns a reference to the first value of the key's vector
  (\<^verbatim>\<open>None\<close> for an absent key or an empty vector); the program writes through it.
  \<open>mm_set_first\<close> is that call followed by the write; \<open>None\<close> is the case where
  \<^verbatim>\<open>get_mut\<close> returned \<^verbatim>\<open>None\<close>.
\<close>

definition mm_get_mut :: "multimap \<Rightarrow> key \<Rightarrow> val option" where
  "mm_get_mut m k =
     (case Mapping.lookup m k of
        Some (v # _) \<Rightarrow> Some v
      | _ \<Rightarrow> None)"

definition mm_set_first :: "key \<Rightarrow> val \<Rightarrow> multimap \<Rightarrow> multimap option" where
  "mm_set_first k v m =
     (case Mapping.lookup m k of
        Some (_ # rest) \<Rightarrow> Some (Mapping.update k (v # rest) m)
      | _ \<Rightarrow> None)"

text \<open>\<^verbatim>\<open>remove\<close> returns the removed vector and deletes the key.\<close>

definition mm_remove :: "key \<Rightarrow> multimap \<Rightarrow> val list option \<times> multimap" where
  "mm_remove k m = (Mapping.lookup m k, Mapping.delete k m)"

text \<open>
  Iterating over \<^verbatim>\<open>&MultiMap\<close> yields \<^verbatim>\<open>(&K, &Vec<V>)\<close> in the hash map's
  order, given here by \<open>ks\<close>.
\<close>

definition mm_iter :: "key list \<Rightarrow> multimap \<Rightarrow> (key \<times> val list) list" where
  "mm_iter ks m = List.map_filter (\<lambda>k. map_option (Pair k) (Mapping.lookup m k)) ks"

definition mm_iteration_order :: "key list \<Rightarrow> multimap \<Rightarrow> bool" where
  "mm_iteration_order ks m \<longleftrightarrow> distinct ks \<and> set ks = Mapping.keys m"

text \<open>The pairs the nested loop over \<open>mm_iter\<close> visits, one per value.\<close>

definition mm_entries :: "key list \<Rightarrow> multimap \<Rightarrow> (key \<times> val) list" where
  "mm_entries ks m = concat (map (\<lambda>(k, vs). map (Pair k) vs) (mm_iter ks m))"

subsection \<open>Invariant and abstraction\<close>

definition mm_wf :: "multimap \<Rightarrow> bool" where
  "mm_wf m \<longleftrightarrow> All_mapping m (\<lambda>_ vs. vs \<noteq> [])"

type_synonym astore = "key \<Rightarrow> val list"

definition mm_abs :: "multimap \<Rightarrow> astore" where
  "mm_abs m k = (case Mapping.lookup m k of None \<Rightarrow> [] | Some vs \<Rightarrow> vs)"

subsection \<open>The invariant is kept by every operation\<close>

lemma mm_wf_new [simp]: "mm_wf mm_new"
  by (simp add: mm_wf_def mm_new_def)

lemma mm_wf_insert [intro]: "mm_wf m \<Longrightarrow> mm_wf (mm_insert k v m)"
  by (auto simp: mm_wf_def mm_insert_def split: option.splits)

lemma mm_wf_set_first [intro]:
  "mm_wf m \<Longrightarrow> mm_set_first k v m = Some m' \<Longrightarrow> mm_wf m'"
  by (auto simp: mm_wf_def mm_set_first_def split: option.splits list.splits)

lemma mm_wf_remove [intro]: "mm_wf m \<Longrightarrow> mm_wf (snd (mm_remove k m))"
  by (auto simp: mm_wf_def mm_remove_def)

subsection \<open>Refinement of the abstract store\<close>

lemma mm_abs_new [simp]: "mm_abs mm_new = (\<lambda>_. [])"
  by (simp add: mm_abs_def mm_new_def fun_eq_iff)

lemma mm_abs_insert [store_simps]:
  "mm_abs (mm_insert k v m) = (mm_abs m)(k := mm_abs m k @ [v])"
  by (auto simp: mm_abs_def mm_insert_def lookup_update' fun_eq_iff split: option.splits)

lemma mm_set_first_None_iff:
  "mm_set_first k v m = None \<longleftrightarrow> mm_abs m k = []"
  by (auto simp: mm_abs_def mm_set_first_def split: option.splits list.splits)

lemma mm_abs_set_first [store_simps]:
  "mm_set_first k v m = Some m' \<Longrightarrow> mm_abs m' = (mm_abs m)(k := v # tl (mm_abs m k))"
  by (auto simp: mm_abs_def mm_set_first_def lookup_update' fun_eq_iff
      split: option.splits list.splits)

lemma mm_abs_remove [store_simps]:
  "mm_abs (snd (mm_remove k m)) = (mm_abs m)(k := [])"
  by (auto simp: mm_abs_def mm_remove_def fun_eq_iff)

lemma mm_get_mut_abs:
  "mm_get_mut m k = (case mm_abs m k of [] \<Rightarrow> None | v # _ \<Rightarrow> Some v)"
  by (auto simp: mm_abs_def mm_get_mut_def split: option.splits list.splits)

lemma mm_contains_key_abs [store_simps]:
  "mm_wf m \<Longrightarrow> mm_contains_key m k \<longleftrightarrow> mm_abs m k \<noteq> []"
  by (auto simp: mm_wf_def mm_abs_def mm_contains_key_def dest: All_mapping_lookupD
      split: option.splits)

lemma mm_get_vec_abs [store_simps]:
  "mm_wf m \<Longrightarrow> mm_get_vec m k = (if mm_abs m k = [] then None else Some (mm_abs m k))"
  by (auto simp: mm_wf_def mm_abs_def mm_get_vec_def dest: All_mapping_lookupD
      split: option.splits)

lemma mm_keys_abs:
  "mm_wf m \<Longrightarrow> k \<in> Mapping.keys m \<longleftrightarrow> mm_abs m k \<noteq> []"
  by (auto simp: mm_wf_def mm_abs_def keys_lookup_Some dest: All_mapping_lookupD
      split: option.splits)

lemma mm_abs_inj:
  assumes "mm_wf m" and "mm_wf m'" and "mm_abs m = mm_abs m'"
  shows "m = m'"
proof (rule mapping_eqI)
  fix k
  have "mm_get_vec m k = mm_get_vec m' k"
    using assms by (simp add: mm_get_vec_abs)
  then show "Mapping.lookup m k = Mapping.lookup m' k"
    by (simp add: mm_get_vec_def)
qed

subsection \<open>Iteration\<close>

lemma mm_iter_keys:
  "set ks \<subseteq> Mapping.keys m \<Longrightarrow> mm_iter ks m = map (\<lambda>k. (k, mm_abs m k)) ks"
  by (induction ks) (auto simp: mm_iter_def mm_abs_def keys_lookup_Some)

lemma mm_entries_keys:
  "set ks \<subseteq> Mapping.keys m \<Longrightarrow>
   mm_entries ks m = concat (map (\<lambda>k. map (Pair k) (mm_abs m k)) ks)"
  by (simp add: mm_entries_def mm_iter_keys comp_def)

lemma concat_map_select_distinct:
  "distinct ks \<Longrightarrow>
   concat (map (\<lambda>k'. if k' = k then f k' else []) ks) = (if k \<in> set ks then f k else [])"
  by (induction ks) auto

lemma mm_entries_filter_key:
  assumes "mm_iteration_order ks m" and "mm_wf m"
  shows "filter (\<lambda>e. fst e = k) (mm_entries ks m) = map (Pair k) (mm_abs m k)"
proof -
  have sub: "set ks \<subseteq> Mapping.keys m" and dist: "distinct ks"
    using assms(1) by (auto simp: mm_iteration_order_def)
  have "filter (\<lambda>e. fst e = k) (mm_entries ks m) =
        concat (map (\<lambda>k'. if k' = k then map (Pair k') (mm_abs m k') else []) ks)"
    by (simp add: mm_entries_keys [OF sub] filter_concat comp_def filter_map filter_const
        map_if_Nil)
  also have "\<dots> = (if k \<in> set ks then map (Pair k) (mm_abs m k) else [])"
    using dist by (rule concat_map_select_distinct)
  also have "\<dots> = map (Pair k) (mm_abs m k)"
    using assms by (auto simp: mm_iteration_order_def mm_keys_abs)
  finally show ?thesis .
qed

lemma mset_concat_map_perm:
  "mset xs = mset ys \<Longrightarrow> mset (concat (map f xs)) = mset (concat (map f ys))"
  by (simp add: mset_concat sum_mset_sum_list [symmetric] mset_map)


lemma mm_entries_order_independent:
  assumes "mm_iteration_order ks1 m" and "mm_iteration_order ks2 m"
  shows "mset (mm_entries ks1 m) = mset (mm_entries ks2 m)"
proof -
  have "mset ks1 = mset ks2"
    using assms set_eq_iff_mset_eq_distinct [of ks1 ks2]
    by (simp add: mm_iteration_order_def)
  then have "mset (concat (map (\<lambda>k. map (Pair k) (mm_abs m k)) ks1)) =
             mset (concat (map (\<lambda>k. map (Pair k) (mm_abs m k)) ks2))"
    by (rule mset_concat_map_perm)
  then show ?thesis
    using assms by (simp add: mm_iteration_order_def mm_entries_keys)
qed

lemma mm_keys_insert [simp]: "Mapping.keys (mm_insert k v m) = insert k (Mapping.keys m)"
  by (simp add: mm_insert_def split: option.splits)

lemma mm_keys_set_first:
  "mm_set_first k v m = Some m' \<Longrightarrow> Mapping.keys m' = insert k (Mapping.keys m)"
  by (auto simp: mm_set_first_def split: option.splits list.splits)

lemma mm_keys_remove [simp]: "Mapping.keys (snd (mm_remove k m)) = Mapping.keys m - {k}"
  by (simp add: mm_remove_def)

end
