(* ===== verification/Console.thy ===== *)
theory Console
  imports Prelude
begin

text \<open>
  The console of \<^verbatim>\<open>src/main.rs\<close>: the bytes still to be read from standard
  input and the bytes written to standard output so far (\<open>world\<close>), the
  \<^verbatim>\<open>println!\<close> and \<^verbatim>\<open>print!\<close> macros, \<^verbatim>\<open>Stdin::read_line\<close>, and the
  standard-library string functions the program applies to what it reads:
  \<^verbatim>\<open>str::trim\<close>, \<^verbatim>\<open>str::parse::<i32>\<close> and the decimal \<^verbatim>\<open>Display\<close> of
  \<^verbatim>\<open>usize\<close>. Strings are byte strings; the model is exact for ASCII input.
  Flushing standard output changes no byte written and is not modelled.
\<close>

record world =
  stdin :: string
  stdout :: string

subsection \<open>Output\<close>

definition println :: "string \<Rightarrow> 'a world_scheme \<Rightarrow> 'a world_scheme" where
  "println s w = w\<lparr>stdout := stdout w @ s @ [nl]\<rparr>"

definition print :: "string \<Rightarrow> 'a world_scheme \<Rightarrow> 'a world_scheme" where
  "print s w = w\<lparr>stdout := stdout w @ s\<rparr>"

subsection \<open>Input\<close>

text \<open>
  \<^verbatim>\<open>read_line\<close> appends the bytes up to and including the next newline to the
  (here always fresh) buffer; at the end of input it reads nothing and returns
  \<^verbatim>\<open>Ok(0)\<close>, leaving the buffer empty.
\<close>

fun split_line :: "string \<Rightarrow> string \<times> string" where
  "split_line [] = ([], [])"
| "split_line (c # cs) =
     (if c = nl then ([nl], cs) else (let (l, r) = split_line cs in (c # l, r)))"

definition read_line :: "'a world_scheme \<Rightarrow> string \<times> 'a world_scheme" where
  "read_line w = (let (l, r) = split_line (stdin w) in (l, w\<lparr>stdin := r\<rparr>))"

subsection \<open>\<^verbatim>\<open>str::trim\<close>\<close>

text \<open>\<^verbatim>\<open>char::is_whitespace\<close> on ASCII: tab, line feed, vertical tab, form feed,
  carriage return and space.\<close>

definition is_whitespace :: "char \<Rightarrow> bool" where
  "is_whitespace c \<longleftrightarrow> c \<in> set [CHR 0x09, CHR 0x0A, CHR 0x0B, CHR 0x0C, CHR 0x0D, CHR 0x20]"

definition trim :: "string \<Rightarrow> string" where
  "trim s = rev (dropWhile is_whitespace (rev (dropWhile is_whitespace s)))"

subsection \<open>\<^verbatim>\<open>str::parse::<i32>\<close>\<close>

text \<open>
  \<^verbatim>\<open>i32::from_str\<close> (\<^verbatim>\<open>from_str_radix\<close> with radix 10): the empty string is
  an error; a lone sign is an invalid digit; a leading \<^verbatim>\<open>+\<close> or \<^verbatim>\<open>-\<close> sets the
  sign; then each byte must be a decimal digit, and the value is accumulated left to
  right with checked arithmetic, so that the first out-of-range intermediate value
  is an overflow. The digit test comes before the overflow test of the same byte.
\<close>

datatype int_error_kind = Empty | InvalidDigit | PosOverflow | NegOverflow

definition i32_min :: int where "i32_min = - (2 ^ 31)"
definition i32_max :: int where "i32_max = 2 ^ 31 - 1"

text \<open>
  \<^verbatim>\<open>a - b\<close> on \<^verbatim>\<open>i32\<close> with the overflow check of a debug build: the exact
  difference when it is representable, else a panic.
\<close>

definition i32_sub_checked :: "32 word \<Rightarrow> 32 word \<Rightarrow> 32 word outcome" where
  "i32_sub_checked a b =
     (if i32_min \<le> sint a - sint b \<and> sint a - sint b \<le> i32_max then Inr (a - b)
      else Inl Sub_overflow)"

definition to_digit :: "char \<Rightarrow> nat option" where
  "to_digit c = (let n = of_char c in if 48 \<le> n \<and> n \<le> 57 then Some (n - 48) else None)"

fun accumulate_digits :: "bool \<Rightarrow> int \<Rightarrow> string \<Rightarrow> int_error_kind + int" where
  "accumulate_digits pos acc [] = Inr acc"
| "accumulate_digits pos acc (c # cs) =
     (case to_digit c of
        None \<Rightarrow> Inl InvalidDigit
      | Some d \<Rightarrow>
          (let acc' = (if pos then 10 * acc + int d else 10 * acc - int d)
           in if acc' < i32_min \<or> i32_max < acc'
              then Inl (if pos then PosOverflow else NegOverflow)
              else accumulate_digits pos acc' cs))"

definition parse_i32 :: "string \<Rightarrow> int_error_kind + 32 word" where
  "parse_i32 s =
     (case s of
        [] \<Rightarrow> Inl Empty
      | c # cs \<Rightarrow>
          (if (c = CHR ''+'' \<or> c = CHR ''-'') \<and> cs = [] then Inl InvalidDigit
           else if c = CHR ''+'' then map_sum id word_of_int (accumulate_digits True 0 cs)
           else if c = CHR ''-'' then map_sum id word_of_int (accumulate_digits False 0 cs)
           else map_sum id word_of_int (accumulate_digits True 0 s)))"

subsection \<open>Decimal \<^verbatim>\<open>Display\<close> of \<^verbatim>\<open>usize\<close>\<close>

fun show_nat :: "nat \<Rightarrow> string" where
  "show_nat n =
     (if n < 10 then [char_of (48 + n)]
      else show_nat (n div 10) @ [char_of (48 + n mod 10)])"

declare show_nat.simps [simp del]

subsection \<open>Lemmas: reading and writing\<close>

lemma stdin_println [simp]: "stdin (println s w) = stdin w"
  and stdout_println [simp]: "stdout (println s w) = stdout w @ s @ [nl]"
  and stdin_print [simp]: "stdin (print s w) = stdin w"
  and stdout_print [simp]: "stdout (print s w) = stdout w @ s"
  by (simp_all add: println_def print_def)

lemma fold_println:
  "fold (\<lambda>x. println (f x)) xs w = w\<lparr>stdout := stdout w @ concat (map (\<lambda>x. f x @ [nl]) xs)\<rparr>"
  by (induction xs arbitrary: w) (simp_all add: println_def)

lemma read_line_print [simp]: "fst (read_line (print s w)) = fst (read_line w)"
  by (simp add: read_line_def print_def split: prod.splits)

lemma split_line_append:
  "nl \<notin> set l \<Longrightarrow> split_line (l @ nl # r) = (l @ [nl], r)"
  by (induction l) auto

lemma split_line_no_nl:
  "nl \<notin> set s \<Longrightarrow> split_line s = (s, [])"
  by (induction s) auto

lemma split_line_concat:
  "split_line s = (l, r) \<Longrightarrow> l @ r = s"
  by (induction s arbitrary: l r rule: split_line.induct) (auto split: if_splits prod.splits)

lemma read_line_line [console_simps]:
  "stdin w = l @ nl # r \<Longrightarrow> nl \<notin> set l \<Longrightarrow> read_line w = (l @ [nl], w\<lparr>stdin := r\<rparr>)"
  by (simp add: read_line_def split_line_append)

lemma read_line_eof [console_simps]:
  "stdin w = [] \<Longrightarrow> read_line w = ([], w)"
  by (simp add: read_line_def)

lemma read_line_stdout [simp]: "stdout (snd (read_line w)) = stdout w"
  by (simp add: read_line_def split: prod.splits)

lemma read_line_consumes:
  "read_line w = (l, w') \<Longrightarrow> l @ stdin w' = stdin w"
  by (auto simp: read_line_def split_line_concat split: prod.splits)

lemma read_line_suffix: "read_line w = (l, w') \<Longrightarrow> suffix (stdin w') (stdin w)"
proof -
  assume "read_line w = (l, w')"
  then have "stdin w = l @ stdin w'" by (simp add: read_line_consumes)
  then show ?thesis unfolding suffix_def by (rule exI)
qed

lemma read_line_stdout_eq: "read_line w = (l, w') \<Longrightarrow> stdout w' = stdout w"
  by (auto simp: read_line_def split: prod.splits)

lemma read_line_more: "read_line w = (l, w') \<Longrightarrow> world.more w' = world.more w"
  by (auto simp: read_line_def split: prod.splits)

subsection \<open>Lemmas: \<open>trim\<close>\<close>

lemma is_whitespace_nl [simp]: "is_whitespace nl"
  by (simp add: is_whitespace_def)

lemma trim_snoc_ws:
  "is_whitespace c \<Longrightarrow> trim (s @ [c]) = trim s"
proof -
  assume ws: "is_whitespace c"
  show ?thesis
  proof (cases "\<forall>x \<in> set s. is_whitespace x")
    case True
    have d2: "dropWhile is_whitespace (s @ [c]) = dropWhile is_whitespace [c]"
      using True by (intro dropWhile_append2) blast
    have d1: "dropWhile is_whitespace s = []"
      using True by (simp add: dropWhile_eq_Nil_conv)
    show ?thesis unfolding trim_def d1 d2 using ws by simp
  next
    case False
    then have "dropWhile is_whitespace (s @ [c]) = dropWhile is_whitespace s @ [c]"
      by (auto intro: dropWhile_append1)
    with ws show ?thesis by (simp add: trim_def)
  qed
qed

lemma trim_line [simp]: "trim (l @ [nl]) = trim l"
  by (simp add: trim_snoc_ws)

lemma last_dropWhile: "dropWhile P xs \<noteq> [] \<Longrightarrow> last (dropWhile P xs) = last xs"
  by (induction xs) auto

lemma trim_ends:
  assumes ne: "trim s \<noteq> []"
  shows "\<not> is_whitespace (hd (trim s)) \<and> \<not> is_whitespace (last (trim s))"
proof -
  let ?d = "dropWhile is_whitespace s"
  let ?e = "dropWhile is_whitespace (rev ?d)"
  have e: "?e \<noteq> []" using ne by (simp add: trim_def)
  then have d: "?d \<noteq> []" by (metis Nil_is_rev_conv dropWhile.simps(1))
  have "last (trim s) = hd ?e" using e by (simp add: trim_def last_rev)
  moreover have "hd (trim s) = hd ?d"
    using e d by (simp add: trim_def hd_rev last_dropWhile last_rev)
  ultimately show ?thesis using e d by (simp add: hd_dropWhile)
qed

lemma dropWhile_hd_not:
  "xs = [] \<or> \<not> P (hd xs) \<Longrightarrow> dropWhile P xs = xs"
  by (cases xs) auto

lemma trim_id:
  "s = [] \<or> (\<not> is_whitespace (hd s) \<and> \<not> is_whitespace (last s)) \<Longrightarrow> trim s = s"
  by (auto simp: trim_def dropWhile_hd_not hd_rev)

lemma trim_idem [simp]: "trim (trim s) = trim s"
  using trim_ends [of s] trim_id [of "trim s"] by blast

subsection \<open>Lemmas: \<open>parse_i32\<close> and \<open>show_nat\<close>\<close>

lemma accumulate_digits_append:
  "accumulate_digits pos acc (xs @ ys) =
     (case accumulate_digits pos acc xs of Inl e \<Rightarrow> Inl e | Inr a \<Rightarrow> accumulate_digits pos a ys)"
  by (induction pos acc xs rule: accumulate_digits.induct) (auto simp: Let_def split: option.splits)

lemma accumulate_digits_range:
  "accumulate_digits pos acc cs = Inr n \<Longrightarrow> i32_min \<le> acc \<Longrightarrow> acc \<le> i32_max \<Longrightarrow>
   i32_min \<le> n \<and> n \<le> i32_max"
  by (induction pos acc cs rule: accumulate_digits.induct)
    (auto simp: Let_def split: option.splits if_splits)

lemma to_digit_char [simp]: "k < 10 \<Longrightarrow> to_digit (char_of (48 + k)) = Some k"
  by (simp add: to_digit_def)

lemma show_nat_digits: "c \<in> set (show_nat n) \<Longrightarrow> to_digit c \<noteq> None"
proof (induction n rule: show_nat.induct)
  case (1 n)
  show ?case
  proof (cases "n < 10")
    case True
    with "1.prems" show ?thesis by (simp add: show_nat.simps [of n])
  next
    case False
    with "1.prems" "1.IH" show ?thesis by (auto simp: show_nat.simps [of n])
  qed
qed

lemma show_nat_ne [simp]: "show_nat n \<noteq> []"
  by (simp add: show_nat.simps [of n])

lemma accumulate_show_nat:
  assumes "int n \<le> (if pos then i32_max else - i32_min)"
  shows "accumulate_digits pos 0 (show_nat n) = Inr (if pos then int n else - int n)"
  using assms
proof (induction n rule: show_nat.induct)
  case (1 n)
  show ?case
  proof (cases "n < 10")
    case True
    then show ?thesis by (simp add: show_nat.simps i32_min_def i32_max_def)
  next
    case False
    have "int (n div 10) \<le> (if pos then i32_max else - i32_min)" using "1.prems" by auto
    with False "1.IH" have pre: "accumulate_digits pos 0 (show_nat (n div 10)) =
        Inr (if pos then int (n div 10) else - int (n div 10))"
      by simp
    have "10 * int (n div 10) + int (n mod 10) = int n"
      using mult_div_mod_eq [of 10 "int n"] by (simp add: zdiv_int zmod_int)
    moreover have "to_digit (char_of (48 + n mod 10)) = Some (n mod 10)" by simp
    ultimately have "accumulate_digits pos (if pos then int (n div 10) else - int (n div 10))
        [char_of (48 + n mod 10)] = Inr (if pos then int n else - int n)"
      using "1.prems" by (auto simp: i32_min_def i32_max_def)
    with False pre show ?thesis
      by (simp add: show_nat.simps [of n] accumulate_digits_append)
  qed
qed

lemma i32_sub_checked_exact:
  "i32_sub_checked a b = Inr c \<Longrightarrow> sint c = sint a - sint b"
  by (auto simp: i32_sub_checked_def i32_min_def i32_max_def sint_word_ariths
      signed_take_bit_int_eq_self split: if_splits)

lemma i32_sub_checked_one:
  "i32_sub_checked n 1 = (if sint n = i32_min then Inl Sub_overflow else Inr (n - 1))"
  using sint_ge [of n] sint_lt [of n] by (auto simp: i32_sub_checked_def i32_min_def i32_max_def)

lemma sint_word_of_int_i32:
  "i32_min \<le> k \<Longrightarrow> k \<le> i32_max \<Longrightarrow> sint (word_of_int k :: 32 word) = k"
proof -
  assume "i32_min \<le> k" "k \<le> i32_max"
  then have "signed_take_bit 31 k = k"
    by (simp add: signed_take_bit_int_eq_self i32_min_def i32_max_def)
  moreover have "sint (word_of_int k :: 32 word) = signed_take_bit (LENGTH(32) - 1) k"
    by (rule sint_sbintrunc')
  ultimately show ?thesis by simp
qed

lemma parse_show_nat:
  assumes "int n \<le> i32_max"
  shows "parse_i32 (show_nat n) = Inr (of_nat n)"
proof -
  obtain c cs where cs: "show_nat n = c # cs" by (cases "show_nat n") auto
  then have "to_digit c \<noteq> None" using show_nat_digits [of c n] by simp
  then have sign: "c \<noteq> CHR ''+'' \<and> c \<noteq> CHR ''-''" by (auto simp: to_digit_def)
  have acc: "accumulate_digits True 0 (c # cs) = Inr (int n)"
    using accumulate_show_nat [of n True] assms unfolding cs by simp
  have "parse_i32 (c # cs) = map_sum id word_of_int (accumulate_digits True 0 (c # cs))"
    using sign by (simp add: parse_i32_def del: accumulate_digits.simps)
  with acc cs show ?thesis by simp
qed

lemma read_line_split: "read_line w = (fst (split_line (stdin w)), w\<lparr>stdin := snd (split_line (stdin w))\<rparr>)"
  by (simp add: read_line_def split_def Let_def)

end
