(* ===== verification/Menu.thy ===== *)
theory Menu
  imports Console
begin

text \<open>
  The menu of \<^verbatim>\<open>src/main.rs\<close>: the \<^verbatim>\<open>Choice\<close> enum with its implicit
  discriminants 0 to 4, the \<^verbatim>\<open>OPTIONS\<close> table, the \<^verbatim>\<open>FromPrimitive\<close>
  conversion derived for the enum, \<^verbatim>\<open>display_prompt\<close> and
  \<^verbatim>\<open>take_input_and_verify\<close>. The latter re-prompts by calling itself on invalid
  input and may recurse forever, so it is a \<^theory_text>\<open>partial_function (option)\<close>
  whose \<open>None\<close> is the recursion that never returns (in the process, a stack
  overflow).
\<close>

datatype choice = Create | Select | Update | Delete | ViewAll

primrec discriminant :: "choice \<Rightarrow> nat" where
  "discriminant Create = 0"
| "discriminant Select = 1"
| "discriminant Update = 2"
| "discriminant Delete = 3"
| "discriminant ViewAll = 4"

definition options :: "string list" where
  "options =
     [''Create a new key value pair'',
      ''Select a key value pair'',
      ''Update value of a key'',
      ''Delete a key value pair'',
      ''View all entries'']"

definition display_prompt :: "'a world_scheme \<Rightarrow> 'a world_scheme" where
  "display_prompt w =
     fold (\<lambda>i. println (show_nat (i + 1) @ '') '' @ options ! i)) [0..<length options]
       (println ''Please choose: '' w)"

text \<open>
  \<^verbatim>\<open>#[derive(FromPrimitive)]\<close>: \<^verbatim>\<open>from_i32(n)\<close> is the variant whose
  discriminant is \<open>n\<close>, and \<^verbatim>\<open>None\<close> for any other value.
\<close>

definition from_i32 :: "32 word \<Rightarrow> choice option" where
  "from_i32 n =
     (if sint n = 0 then Some Create
      else if sint n = 1 then Some Select
      else if sint n = 2 then Some Update
      else if sint n = 3 then Some Delete
      else if sint n = 4 then Some ViewAll
      else None)"

text \<open>The pieces of \<^verbatim>\<open>take_input_and_verify\<close>: the parse of the trimmed line
  into an \<^verbatim>\<open>Option<i32>\<close>, the validity test of the \<^verbatim>\<open>if\<close>, and the final
  conversion \<^verbatim>\<open>from_i32(choice.unwrap() - 1).expect(..)\<close>, where the
  subtraction is checked for overflow as in a debug build (\<open>i32_sub_checked\<close>): on
  \<^verbatim>\<open>i32::MIN\<close> it panics. A release build would wrap to \<^verbatim>\<open>i32::MAX\<close> and
  panic in the \<^verbatim>\<open>expect\<close> instead.\<close>

definition parse_choice :: "string \<Rightarrow> 32 word option" where
  "parse_choice input = (case parse_i32 (trim input) of Inr n \<Rightarrow> Some n | Inl _ \<Rightarrow> None)"

definition choice_invalid :: "32 word option \<Rightarrow> bool" where
  "choice_invalid c =
     (case c of None \<Rightarrow> True | Some n \<Rightarrow> sint n < 1 \<or> int (length options) < sint n)"

definition select_choice :: "32 word option \<Rightarrow> choice outcome" where
  "select_choice c =
     (case c of
        None \<Rightarrow> Inl Unwrap_none
      | Some n \<Rightarrow>
          (case i32_sub_checked n 1 of
             Inl p \<Rightarrow> Inl p
           | Inr m \<Rightarrow>
               (case from_i32 m of
                  None \<Rightarrow> Inl (Expect_failed ''get Choice enum from i32'')
                | Some ch \<Rightarrow> Inr ch)))"

partial_function (option) take_input_and_verify ::
  "'a world_scheme \<Rightarrow> (choice \<times> 'a world_scheme) outcome option"
where
  "take_input_and_verify w =
     (let (input, w2) = read_line (print ''> '' w);
          choice = parse_choice input
      in if choice_invalid choice
         then do {
           r \<leftarrow> take_input_and_verify (println ''Invalid input, please try again.'' w2);
           Some (case r of
                   Inl p \<Rightarrow> Inl p
                 | Inr (_, w3) \<Rightarrow> map_sum id (\<lambda>ch. (ch, w3)) (select_choice choice))
         }
         else Some (map_sum id (\<lambda>ch. (ch, w2)) (select_choice choice)))"

declare take_input_and_verify.simps [code]

subsection \<open>The conversion to \<^verbatim>\<open>Choice\<close>\<close>

lemma from_i32_Some_iff:
  "from_i32 n = Some c \<longleftrightarrow> sint n = int (discriminant c)"
  by (cases c) (auto simp: from_i32_def)

lemma from_i32_None_iff:
  "from_i32 n = None \<longleftrightarrow> sint n < 0 \<or> 4 < sint n"
  by (auto simp: from_i32_def)

lemma select_choice_Some:
  "select_choice (Some n) =
     (if sint n = i32_min then Inl Sub_overflow
      else case from_i32 (n - 1) of
             None \<Rightarrow> Inl (Expect_failed ''get Choice enum from i32'')
           | Some ch \<Rightarrow> Inr ch)"
  by (simp add: select_choice_def i32_sub_checked_one)

lemma from_i32_pred_invalid:
  assumes "choice_invalid (Some n)" and "sint n \<noteq> i32_min"
  shows "from_i32 (n - 1) = None"
proof -
  have "i32_min < sint n" using assms(2) sint_ge [of n] by (simp add: i32_min_def)
  then have "sint (n - 1) = sint n - 1" by (simp add: sint_minus_one i32_min_def)
  with assms(1) show ?thesis by (auto simp: choice_invalid_def options_def from_i32_None_iff)
qed

lemma select_choice_invalid:
  assumes "choice_invalid c"
  shows "\<exists>p. select_choice c = Inl p"
proof (cases c)
  case None
  then show ?thesis by (simp add: select_choice_def)
next
  case (Some n)
  then show ?thesis
    using assms from_i32_pred_invalid [of n] by (simp add: select_choice_Some)
qed

lemma select_choice_valid:
  assumes "\<not> choice_invalid c"
  shows "\<exists>n ch. c = Some n \<and> select_choice c = Inr ch \<and> int (discriminant ch) = sint n - 1"
proof -
  obtain n where c: "c = Some n" and range: "1 \<le> sint n" "sint n \<le> 5"
    using assms by (cases c) (auto simp: choice_invalid_def options_def)
  then have dec: "sint (n - 1) = sint n - 1"
    using sint_ge [of n] by (simp add: sint_minus_one)
  then obtain ch where ch: "from_i32 (n - 1) = Some ch"
    using range by (cases "from_i32 (n - 1)") (auto simp: from_i32_None_iff)
  have "sint n \<noteq> i32_min" using range by (simp add: i32_min_def)
  with ch have "select_choice c = Inr ch" by (simp add: c select_choice_Some)
  moreover have "int (discriminant ch) = sint n - 1"
    using ch dec by (simp add: from_i32_Some_iff)
  ultimately show ?thesis using c by blast
qed

subsection \<open>\<open>take_input_and_verify\<close>\<close>

lemma parse_choice_line [simp]: "parse_choice (l @ [nl]) = parse_choice l"
  by (simp add: parse_choice_def)

lemma take_input_and_verify_line:
  assumes "stdin w = l @ nl # r" and "nl \<notin> set l"
  shows "take_input_and_verify w =
    (let w2 = (print ''> '' w)\<lparr>stdin := r\<rparr>; choice = parse_choice l
     in if choice_invalid choice
        then do {
          r' \<leftarrow> take_input_and_verify (println ''Invalid input, please try again.'' w2);
          Some (case r' of
                  Inl p \<Rightarrow> Inl p
                | Inr (_, w3) \<Rightarrow> map_sum id (\<lambda>ch. (ch, w3)) (select_choice choice))
        }
        else Some (map_sum id (\<lambda>ch. (ch, w2)) (select_choice choice)))"
proof -
  have rl: "read_line (print ''> '' w) = (l @ [nl], (print ''> '' w)\<lparr>stdin := r\<rparr>)"
    using assms by (simp add: read_line_line)
  show ?thesis
    by (subst take_input_and_verify.simps) (simp only: rl Let_def parse_choice_line prod.case)
qed

lemma take_input_and_verify_valid:
  assumes "stdin w = l @ nl # r" and "nl \<notin> set l" and "\<not> choice_invalid (parse_choice l)"
  shows "\<exists>ch. select_choice (parse_choice l) = Inr ch \<and>
           take_input_and_verify w = Some (Inr (ch, (print ''> '' w)\<lparr>stdin := r\<rparr>))"
proof -
  obtain n ch where "select_choice (parse_choice l) = Inr ch"
    using select_choice_valid [OF assms(3)] by blast
  with assms show ?thesis by (simp add: take_input_and_verify_line)
qed

lemma take_input_and_verify_invalid:
  assumes "choice_invalid (parse_choice (fst (read_line w)))"
  shows "take_input_and_verify w \<noteq> Some (Inr x)"
proof
  assume ret: "take_input_and_verify w = Some (Inr x)"
  obtain input w2 where rl: "read_line (print ''> '' w) = (input, w2)" by fastforce
  then have inv: "choice_invalid (parse_choice input)"
    using assms read_line_print [of "''> ''" w] by simp
  then obtain p where sel: "select_choice (parse_choice input) = Inl p"
    using select_choice_invalid by blast
  from ret rl inv have "Option.bind (take_input_and_verify
      (println ''Invalid input, please try again.'' w2))
      (\<lambda>r. Some (case r of Inl p \<Rightarrow> Inl p
        | Inr (_, w3) \<Rightarrow> map_sum id (\<lambda>ch. (ch, w3)) (select_choice (parse_choice input)))) =
      Some (Inr x)"
    by (subst (asm) take_input_and_verify.simps) simp
  with sel show False by (auto split: Option.bind_splits sum.splits)
qed

lemma take_input_and_verify_eof_aux:
  "\<forall>w r. take_input_and_verify w = Some r \<longrightarrow> stdin w \<noteq> []"
proof (induction rule: take_input_and_verify.fixp_induct)
  case 1
  show ?case by (rule option_admissible)
next
  case 2
  show ?case by simp
next
  case (3 f)
  show ?case
  proof (intro allI impI)
    fix w r
    assume ret: "(let (input, w2) = read_line (print ''> '' w); choice = parse_choice input
       in if choice_invalid choice
          then f (println ''Invalid input, please try again.'' w2) \<bind>
               (\<lambda>r. Some (case r of Inl p \<Rightarrow> Inl p
                  | Inr (_, w3) \<Rightarrow> map_sum id (\<lambda>ch. (ch, w3)) (select_choice choice)))
          else Some (map_sum id (\<lambda>ch. (ch, w2)) (select_choice choice))) = Some r"
    show "stdin w \<noteq> []"
    proof
      assume eof: "stdin w = []"
      then have rl: "read_line (print ''> '' w) = ([], print ''> '' w)"
        by (simp add: read_line_eof)
      have "choice_invalid (parse_choice [])"
        by (simp add: parse_choice_def parse_i32_def trim_def choice_invalid_def)
      with ret rl have "f (println ''Invalid input, please try again.'' (print ''> '' w)) \<noteq> None"
        by (auto simp: bind_eq_Some_conv)
      then obtain r' where "f (println ''Invalid input, please try again.'' (print ''> '' w)) = Some r'"
        by blast
      then have "stdin (println ''Invalid input, please try again.'' (print ''> '' w)) \<noteq> []"
        using "3.IH" by blast
      with eof show False by simp
    qed
  qed
qed

lemma take_input_and_verify_eof:
  "stdin w = [] \<Longrightarrow> take_input_and_verify w = None"
  using take_input_and_verify_eof_aux by fastforce

lemma take_input_and_verify_reprompt:
  assumes "stdin w = l1 @ nl # l2 @ nl # r" and "nl \<notin> set l1" and "nl \<notin> set l2"
    and "choice_invalid (parse_choice l1)" and "\<not> choice_invalid (parse_choice l2)"
  shows "\<exists>p. take_input_and_verify w = Some (Inl p)"
proof -
  let ?w2 = "println ''Invalid input, please try again.'' ((print ''> '' w)\<lparr>stdin := l2 @ nl # r\<rparr>)"
  obtain ch where again: "take_input_and_verify ?w2 = Some (Inr (ch, (print ''> '' ?w2)\<lparr>stdin := r\<rparr>))"
    using take_input_and_verify_valid [of ?w2 l2 r] assms(3,5) by auto
  obtain p where "select_choice (parse_choice l1) = Inl p"
    using select_choice_invalid [OF assms(4)] by blast
  with again assms(1,2,4) show ?thesis
    by (simp add: take_input_and_verify_line [of w l1])
qed

subsection \<open>The prompt and the numbers it shows\<close>

lemma display_prompt_eq:
  "display_prompt w = w\<lparr>stdout := stdout w @ ''Please choose: '' @ [nl] @
     concat (map (\<lambda>i. show_nat (i + 1) @ '') '' @ options ! i @ [nl]) [0..<length options])\<rparr>"
  by (simp add: display_prompt_def fold_println println_def)

lemma to_digit_not_whitespace: "to_digit c \<noteq> None \<Longrightarrow> \<not> is_whitespace c"
  by (auto simp: to_digit_def is_whitespace_def)

lemma trim_show_nat [simp]: "trim (show_nat n) = show_nat n"
proof (rule trim_id)
  have "\<forall>c \<in> set (show_nat n). \<not> is_whitespace c"
    using show_nat_digits to_digit_not_whitespace by blast
  then show "show_nat n = [] \<or> \<not> is_whitespace (hd (show_nat n)) \<and> \<not> is_whitespace (last (show_nat n))"
    by simp
qed

lemma sint_of_nat_i32:
  "int n \<le> i32_max \<Longrightarrow> sint (of_nat n :: 32 word) = int n"
  using sint_word_of_int_i32 [of "int n"] by (simp add: i32_min_def)

lemma parse_choice_show_nat:
  "int n \<le> i32_max \<Longrightarrow> parse_choice (show_nat n) = Some (of_nat n)"
  by (simp add: parse_choice_def parse_show_nat)

lemma menu_number_selects:
  assumes "i < length options"
  shows "\<not> choice_invalid (parse_choice (show_nat (i + 1))) \<and>
         (\<exists>ch. select_choice (parse_choice (show_nat (i + 1))) = Inr ch \<and> discriminant ch = i)"
proof -
  have small: "int (i + 1) \<le> i32_max" using assms by (simp add: options_def i32_max_def)
  let ?c = "parse_choice (show_nat (i + 1))"
  have c: "?c = Some (of_nat (i + 1))" using small by (rule parse_choice_show_nat)
  have s: "sint (of_nat (i + 1) :: 32 word) = int (i + 1)" using small by (rule sint_of_nat_i32)
  have valid: "\<not> choice_invalid ?c" using assms c s by (simp add: choice_invalid_def)
  then obtain n ch where "?c = Some n" "select_choice ?c = Inr ch" "int (discriminant ch) = sint n - 1"
    using select_choice_valid by blast
  with c s valid show ?thesis by auto
qed

subsection \<open>What \<open>take_input_and_verify\<close> reads, writes and leaves unchanged\<close>

definition console_frame :: "'a world_scheme \<Rightarrow> 'b world_scheme \<Rightarrow> bool" where
  "console_frame w w' \<longleftrightarrow> suffix (stdin w') (stdin w) \<and> prefix (stdout w) (stdout w')"

lemma console_frame_refl [simp, intro]: "console_frame w w"
  by (simp add: console_frame_def)

lemma console_frame_trans: "console_frame w1 w2 \<Longrightarrow> console_frame w2 w3 \<Longrightarrow> console_frame w1 w3"
  unfolding console_frame_def by (auto intro: prefix_order.trans suffix_order.trans)

lemma console_frame_print [intro]: "console_frame w w' \<Longrightarrow> console_frame w (print s w')"
  and console_frame_println [intro]: "console_frame w w' \<Longrightarrow> console_frame w (println s w')"
  by (auto simp: console_frame_def print_def println_def intro: prefix_order.trans)

lemma console_frame_read_line [intro]:
  "console_frame w w' \<Longrightarrow> console_frame w (snd (read_line w'))"
proof -
  assume fr: "console_frame w w'"
  obtain l w'' where rl: "read_line w' = (l, w'')" by fastforce
  then have "console_frame w' w''"
    by (simp add: console_frame_def read_line_suffix read_line_stdout_eq)
  with fr rl show ?thesis using console_frame_trans by fastforce
qed

lemma console_frame_fold_println [intro]:
  "console_frame w w' \<Longrightarrow> console_frame w (fold (\<lambda>x. println (f x)) xs w')"
  by (induction xs arbitrary: w') auto

lemma console_frame_if [intro]:
  "console_frame w w1 \<Longrightarrow> console_frame w w2 \<Longrightarrow> console_frame w (if b then w1 else w2)"
  by simp

lemma take_input_and_verify_frame_aux:
  "\<forall>w r. take_input_and_verify w = Some r \<longrightarrow>
     (\<forall>c w'. r = Inr (c, w') \<longrightarrow> world.more w' = world.more w \<and> console_frame w w')"
proof (induction rule: take_input_and_verify.fixp_induct)
  case 1
  show ?case by (rule option_admissible)
next
  case 2
  show ?case by simp
next
  case (3 f)
  show ?case
  proof (intro allI impI)
    fix w r c w'
    assume ret: "(let (input, w2) = read_line (print ''> '' w); choice = parse_choice input
       in if choice_invalid choice
          then f (println ''Invalid input, please try again.'' w2) \<bind>
               (\<lambda>r. Some (case r of Inl p \<Rightarrow> Inl p
                  | Inr (_, w3) \<Rightarrow> map_sum id (\<lambda>ch. (ch, w3)) (select_choice choice)))
          else Some (map_sum id (\<lambda>ch. (ch, w2)) (select_choice choice))) = Some r"
      and r: "r = Inr (c, w')"
    obtain input w2 where rl: "read_line (print ''> '' w) = (input, w2)" by fastforce
    have "console_frame w (snd (read_line (print ''> '' w)))"
      by (intro console_frame_read_line console_frame_print console_frame_refl)
    then have fr: "console_frame w w2" using rl by simp
    have m2: "world.more w2 = world.more w"
      using read_line_more [OF rl] by (simp add: print_def)
    show "world.more w' = world.more w \<and> console_frame w w'"
    proof (cases "choice_invalid (parse_choice input)")
      case True
      then obtain p where "select_choice (parse_choice input) = Inl p"
        using select_choice_invalid by blast
      with True ret rl r show ?thesis
        by (auto simp: bind_eq_Some_conv split: sum.splits prod.splits) (metis sumE surj_pair)+
    next
      case False
      with ret rl r fr m2 show ?thesis by auto
    qed
  qed
qed

lemma take_input_and_verify_frame:
  "take_input_and_verify w = Some (Inr (c, w')) \<Longrightarrow> console_frame w w'"
  using take_input_and_verify_frame_aux by blast

lemma take_input_and_verify_more:
  "take_input_and_verify w = Some (Inr (c, w')) \<Longrightarrow> world.more w' = world.more w"
  using take_input_and_verify_frame_aux by blast

lemma display_prompt_stdin [simp]: "stdin (display_prompt w) = stdin w"
  by (simp add: display_prompt_eq)

lemma select_choice_Inr_valid: "select_choice c = Inr ch \<Longrightarrow> \<not> choice_invalid c"
  using select_choice_invalid by fastforce

lemma take_input_and_verify_Inr_iff:
  "take_input_and_verify w = Some (Inr (ch, w')) \<longleftrightarrow>
   select_choice (parse_choice (fst (split_line (stdin w)))) = Inr ch \<and>
   w' = (print ''> '' w)\<lparr>stdin := snd (split_line (stdin w))\<rparr>"
proof -
  let ?c = "parse_choice (fst (split_line (stdin w)))"
  have rl: "read_line (print ''> '' w) =
      (fst (split_line (stdin w)), (print ''> '' w)\<lparr>stdin := snd (split_line (stdin w))\<rparr>)"
    by (simp add: read_line_split)
  show ?thesis
  proof (cases "choice_invalid ?c")
    case True
    then obtain p where "select_choice ?c = Inl p" using select_choice_invalid by blast
    with True show ?thesis
      by (subst take_input_and_verify.simps)
        (auto simp: rl bind_eq_Some_conv split: sum.splits prod.splits)
  next
    case False
    then show ?thesis
      by (subst take_input_and_verify.simps) (auto simp: rl)
  qed
qed

end
