(* ===== verification/Handlers.thy ===== *)
theory Handlers
  imports Store Menu
begin

text \<open>
  The five operations of \<^verbatim>\<open>src/main.rs\<close> that \<^verbatim>\<open>program_loop\<close> dispatches
  to: \<^verbatim>\<open>create_entry\<close>, \<^verbatim>\<open>update_entry\<close>, \<^verbatim>\<open>select_entry\<close>,
  \<^verbatim>\<open>delete_entry\<close> and \<^verbatim>\<open>view_all_entries\<close>. The program state \<open>sys\<close> is the
  console extended by the store (\<^verbatim>\<open>&mut MultiMap<String, String>\<close>). Each handler
  is one definition over \<open>sys\<close>, in the order of its statements; a handler that calls
  \<^verbatim>\<open>unwrap\<close> returns \<open>sys outcome\<close>, with \<open>Inl\<close> the panic.
\<close>

record sys = world +
  db :: multimap

definition create_entry :: "sys \<Rightarrow> sys" where
  "create_entry s =
     (let s1 = println ''Enter key: '' s;
          (key_line, s2) = read_line s1;
          s3 = println ''Enter value: '' s2;
          (value_line, s4) = read_line s3;
          s5 = s4\<lparr>db := mm_insert (trim key_line) (trim value_line) (db s4)\<rparr>
      in println ''Entry stored successfully!'' s5)"

definition caution_msg :: string where
  "caution_msg = ''Caution: The key you are trying to update has multiple values. '' @
     ''Doing so is not recommended and will lead to only the first insertion value being updated.''"

definition update_entry :: "sys \<Rightarrow> sys outcome" where
  "update_entry s =
     (let s1 = println ''Enter key: '' s;
          (key_line, s2) = read_line s1;
          key = trim key_line
      in if \<not> mm_contains_key (db s2) key then Inr (println ''No such key exists.'' s2)
         else
           (case mm_get_vec (db s2) key of
              None \<Rightarrow> Inl Unwrap_none
            | Some values \<Rightarrow>
                (let s3 = (if 1 < length values then println caution_msg s2 else s2);
                     s4 = println ''Enter updated value: '' s3;
                     (value_line, s5) = read_line s4;
                     value = trim value_line
                 in case mm_set_first key value (db s5) of
                      None \<Rightarrow> Inl Unwrap_none
                    | Some m \<Rightarrow> Inr (println ''Entry updated successfully.'' (s5\<lparr>db := m\<rparr>)))))"

definition select_entry :: "sys \<Rightarrow> sys outcome" where
  "select_entry s =
     (let s1 = println ''Enter key: '' s;
          (key_line, s2) = read_line s1;
          key = trim key_line
      in if \<not> mm_contains_key (db s2) key then Inr (println ''No such key exists.'' s2)
         else
           (case mm_get_vec (db s2) key of
              None \<Rightarrow> Inl Unwrap_none
            | Some values \<Rightarrow> Inr (fold (\<lambda>v. println (key @ '' '' @ v)) values s2)))"

definition delete_entry :: "sys \<Rightarrow> sys" where
  "delete_entry s =
     (let s1 = println ''Enter key: '' s;
          (key_line, s2) = read_line s1;
          key = trim key_line
      in if \<not> mm_contains_key (db s2) key then println ''No such key exists.'' s2
         else println ''Entry deleted successfully.'' (s2\<lparr>db := snd (mm_remove key (db s2))\<rparr>))"

text \<open>\<open>ks\<close> is the order in which the hash map yields its keys.\<close>

definition view_all_entries :: "key list \<Rightarrow> sys \<Rightarrow> sys" where
  "view_all_entries ks s =
     fold (\<lambda>(key, values). fold (\<lambda>v. println (key @ '' '' @ v)) values) (mm_iter ks (db s)) s"

subsection \<open>Reading the key and value lines\<close>

lemma read_line_next:
  "stdin w = l @ nl # r \<Longrightarrow> nl \<notin> set l \<Longrightarrow> read_line w = (l @ [nl], w\<lparr>stdin := r\<rparr>)"
  by (rule read_line_line)

lemma read_line_db [simp]: "db (snd (read_line s)) = db s"
  by (simp add: read_line_def split: prod.splits)

lemma fold_println_db [simp]: "db (fold (\<lambda>x. println (f x)) xs s) = db s"
  by (simp add: fold_println)

lemma println_db [simp]: "db (println str s) = db s"
  by (simp add: println_def)

lemma fold_print_groups:
  "fold (\<lambda>(key, values). fold (\<lambda>v. println (key @ '' '' @ v)) values) ps w =
   w\<lparr>stdout := stdout w @
      concat (map (\<lambda>(k, v). k @ '' '' @ v @ [nl]) (concat (map (\<lambda>(k, vs). map (Pair k) vs) ps)))\<rparr>"
  by (induction ps arbitrary: w) (auto simp: fold_println comp_def)

subsection \<open>Frame\<close>

lemma view_all_entries_eq:
  "view_all_entries ks s =
   s\<lparr>stdout := stdout s @ concat (map (\<lambda>(k, v). k @ '' '' @ v @ [nl]) (mm_entries ks (db s)))\<rparr>"
  unfolding view_all_entries_def fold_print_groups by (simp add: mm_entries_def)

lemma select_entry_db: "select_entry s = Inr s' \<Longrightarrow> db s' = db s"
  by (auto simp: select_entry_def Let_def split_def split: if_splits option.splits)

lemma console_frame_db [intro]: "console_frame w w' \<Longrightarrow> console_frame w (w'\<lparr>db := m\<rparr>)"
  by (simp add: console_frame_def)

lemmas console_frame_steps =
  console_frame_println console_frame_read_line console_frame_db console_frame_if
  console_frame_fold_println console_frame_refl

lemma create_entry_frame: "console_frame s (create_entry s)"
  unfolding create_entry_def Let_def split_def by (intro console_frame_steps)

lemma update_entry_frame: "update_entry s = Inr s' \<Longrightarrow> console_frame s s'"
  unfolding update_entry_def Let_def split_def
  by (auto split: if_splits option.splits intro!: console_frame_steps)

lemma select_entry_frame: "select_entry s = Inr s' \<Longrightarrow> console_frame s s'"
  unfolding select_entry_def Let_def split_def
  by (auto split: if_splits option.splits intro!: console_frame_steps)

lemma delete_entry_frame: "console_frame s (delete_entry s)"
  unfolding delete_entry_def Let_def split_def by (auto intro!: console_frame_steps)

lemma view_all_entries_frame: "console_frame s (view_all_entries ks s)"
  by (simp add: view_all_entries_eq console_frame_def)

subsection \<open>The store invariant is kept\<close>

lemma create_entry_wf: "mm_wf (db s) \<Longrightarrow> mm_wf (db (create_entry s))"
  by (auto simp: create_entry_def Let_def split_def)

lemma db_if_println [simp]: "db (if b then println str s else s) = db s"
  by simp

lemma update_entry_wf:
  "mm_wf (db s) \<Longrightarrow> update_entry s = Inr s' \<Longrightarrow> mm_wf (db s')"
  by (auto simp: update_entry_def Let_def split_def split: if_splits option.splits)

lemma select_entry_wf:
  "mm_wf (db s) \<Longrightarrow> select_entry s = Inr s' \<Longrightarrow> mm_wf (db s')"
  by (simp add: select_entry_db)

lemma delete_entry_wf: "mm_wf (db s) \<Longrightarrow> mm_wf (db (delete_entry s))"
  by (auto simp: delete_entry_def Let_def split_def)

lemma view_all_entries_db [simp]: "db (view_all_entries ks s) = db s"
  by (simp add: view_all_entries_eq)

subsection \<open>No \<^verbatim>\<open>unwrap\<close> fires on a well-formed store\<close>

lemma get_vec_contains:
  "mm_wf m \<Longrightarrow> mm_contains_key m k \<Longrightarrow> \<exists>vs. mm_get_vec m k = Some vs \<and> vs \<noteq> []"
  by (simp add: mm_get_vec_abs mm_contains_key_abs)

lemma update_entry_no_panic:
  assumes "mm_wf (db s)"
  shows "\<exists>s'. update_entry s = Inr s'"
proof -
  define s2 where "s2 = snd (read_line (println ''Enter key: '' s))"
  define key where "key = trim (fst (read_line (println ''Enter key: '' s)))"
  have wf2: "mm_wf (db s2)" using assms by (simp add: s2_def)
  show ?thesis
  proof (cases "mm_contains_key (db s2) key")
    case False
    then show ?thesis by (simp add: update_entry_def Let_def split_def s2_def key_def)
  next
    case True
    obtain vs where vs: "mm_get_vec (db s2) key = Some vs"
      using get_vec_contains [OF wf2 True] by blast
    have "mm_abs (db s2) key \<noteq> []"
      using wf2 True by (simp add: mm_contains_key_abs)
    with True vs show ?thesis
      by (auto simp: update_entry_def Let_def split_def s2_def key_def mm_set_first_None_iff
          split: option.splits)
  qed
qed

lemma select_entry_no_panic:
  assumes "mm_wf (db s)"
  shows "\<exists>s'. select_entry s = Inr s'"
proof -
  define s2 where "s2 = snd (read_line (println ''Enter key: '' s))"
  define key where "key = trim (fst (read_line (println ''Enter key: '' s)))"
  have wf2: "mm_wf (db s2)" using assms by (simp add: s2_def)
  show ?thesis
  proof (cases "mm_contains_key (db s2) key")
    case False
    then show ?thesis by (simp add: select_entry_def Let_def split_def s2_def key_def)
  next
    case True
    then obtain vs where "mm_get_vec (db s2) key = Some vs"
      using get_vec_contains [OF wf2] by blast
    with True show ?thesis
      by (simp add: select_entry_def Let_def split_def s2_def key_def)
  qed
qed

subsection \<open>Behaviour on given input lines\<close>

lemma read_after_println:
  "stdin w = l @ nl # r \<Longrightarrow> nl \<notin> set l \<Longrightarrow>
   read_line (println str w) = (l @ [nl], (println str w)\<lparr>stdin := r\<rparr>)"
  by (simp add: read_line_line)

lemma create_entry_eq:
  assumes "stdin s = k @ nl # v @ nl # r" and "nl \<notin> set k" and "nl \<notin> set v"
  shows "create_entry s = s\<lparr>stdin := r,
     stdout := stdout s @ ''Enter key: '' @ [nl] @ ''Enter value: '' @ [nl] @
               ''Entry stored successfully!'' @ [nl],
     db := mm_insert (trim k) (trim v) (db s)\<rparr>"
  using assms by (simp add: create_entry_def read_after_println Let_def)

lemma update_entry_absent:
  assumes "stdin s = k @ nl # r" and "nl \<notin> set k" and "\<not> mm_contains_key (db s) (trim k)"
  shows "update_entry s =
    Inr (s\<lparr>stdin := r, stdout := stdout s @ ''Enter key: '' @ [nl] @ ''No such key exists.'' @ [nl]\<rparr>)"
  using assms by (simp add: update_entry_def read_after_println Let_def)

lemma update_entry_present:
  assumes "stdin s = k @ nl # v @ nl # r" and "nl \<notin> set k" and "nl \<notin> set v"
    and "mm_wf (db s)" and "mm_contains_key (db s) (trim k)"
  shows "\<exists>m. mm_set_first (trim k) (trim v) (db s) = Some m \<and>
    update_entry s = Inr (s\<lparr>stdin := r,
      stdout := stdout s @ ''Enter key: '' @ [nl] @
        (if 1 < length (mm_abs (db s) (trim k)) then caution_msg @ [nl] else []) @
        ''Enter updated value: '' @ [nl] @ ''Entry updated successfully.'' @ [nl],
      db := m\<rparr>)"
proof -
  have ne: "mm_abs (db s) (trim k) \<noteq> []" using assms(4,5) by (simp add: mm_contains_key_abs)
  then obtain m where m: "mm_set_first (trim k) (trim v) (db s) = Some m"
    using mm_set_first_None_iff [of "trim k" "trim v" "db s"] by auto
  have gv: "mm_get_vec (db s) (trim k) = Some (mm_abs (db s) (trim k))"
    using assms(4) ne by (simp add: mm_get_vec_abs)
  show ?thesis
  proof (cases "1 < length (mm_abs (db s) (trim k))")
    case True
    with assms m gv show ?thesis
      by (simp add: update_entry_def read_after_println Let_def)
  next
    case False
    with assms m gv show ?thesis
      by (simp add: update_entry_def read_after_println Let_def)
  qed
qed

lemma select_entry_absent:
  assumes "stdin s = k @ nl # r" and "nl \<notin> set k" and "\<not> mm_contains_key (db s) (trim k)"
  shows "select_entry s =
    Inr (s\<lparr>stdin := r, stdout := stdout s @ ''Enter key: '' @ [nl] @ ''No such key exists.'' @ [nl]\<rparr>)"
  using assms by (simp add: select_entry_def read_after_println Let_def)

lemma select_entry_present:
  assumes "stdin s = k @ nl # r" and "nl \<notin> set k"
    and "mm_wf (db s)" and "mm_contains_key (db s) (trim k)"
  shows "select_entry s = Inr (s\<lparr>stdin := r, stdout := stdout s @ ''Enter key: '' @ [nl] @
    concat (map (\<lambda>v. trim k @ '' '' @ v @ [nl]) (mm_abs (db s) (trim k)))\<rparr>)"
proof -
  have "mm_abs (db s) (trim k) \<noteq> []" using assms(3,4) by (simp add: mm_contains_key_abs)
  then have "mm_get_vec (db s) (trim k) = Some (mm_abs (db s) (trim k))"
    using assms(3) by (simp add: mm_get_vec_abs)
  with assms show ?thesis
    by (simp add: select_entry_def read_after_println Let_def fold_println)
qed

lemma delete_entry_eq:
  assumes "stdin s = k @ nl # r" and "nl \<notin> set k"
  shows "delete_entry s =
    (if mm_contains_key (db s) (trim k)
     then s\<lparr>stdin := r,
            stdout := stdout s @ ''Enter key: '' @ [nl] @ ''Entry deleted successfully.'' @ [nl],
            db := snd (mm_remove (trim k) (db s))\<rparr>
     else s\<lparr>stdin := r, stdout := stdout s @ ''Enter key: '' @ [nl] @ ''No such key exists.'' @ [nl]\<rparr>)"
  using assms by (simp add: delete_entry_def read_after_println Let_def)

end
