(* ===== verification/Program.thy ===== *)
theory Program
  imports Handlers
begin

text \<open>
  \<^verbatim>\<open>main\<close> and \<^verbatim>\<open>program_loop\<close> of \<^verbatim>\<open>src/main.rs\<close>. \<^verbatim>\<open>program_loop\<close>
  prints the menu, reads a choice, runs the chosen handler and calls itself; it has
  no exit path, so every run of the process ends in a panic, in a recursion of
  \<^verbatim>\<open>take_input_and_verify\<close> that never returns, or not at all. One pass of the
  loop body up to its recursive call is \<open>loop_iteration\<close>; the loop is the step
  relation \<open>loop_step\<close> (the hash map's iteration order at each step is chosen
  freely among the orders of its keys), and \<open>reachable\<close> is the set of states the
  process reaches from \<^verbatim>\<open>main\<close> on a given standard input.
\<close>

definition create_database :: multimap where
  "create_database = mm_new"

definition dispatch :: "key list \<Rightarrow> choice \<Rightarrow> sys \<Rightarrow> sys outcome" where
  "dispatch ks c s =
     (case c of
        Create \<Rightarrow> Inr (create_entry s)
      | Update \<Rightarrow> update_entry s
      | Select \<Rightarrow> select_entry s
      | Delete \<Rightarrow> Inr (delete_entry s)
      | ViewAll \<Rightarrow> Inr (view_all_entries ks s))"

definition loop_iteration :: "key list \<Rightarrow> sys \<Rightarrow> sys outcome option" where
  "loop_iteration ks s =
     do {
       r \<leftarrow> take_input_and_verify (display_prompt s);
       Some (case r of Inl p \<Rightarrow> Inl p | Inr (c, s') \<Rightarrow> dispatch ks c s')
     }"

definition main_start :: "string \<Rightarrow> sys" where
  "main_start input =
     println ''Hello, This is a simple in-memory database application written in Rust''
       \<lparr>stdin = input, stdout = [], db = create_database\<rparr>"

inductive loop_step :: "sys \<Rightarrow> sys \<Rightarrow> bool" where
  iteration: "mm_iteration_order ks (db s) \<Longrightarrow> loop_iteration ks s = Some (Inr s') \<Longrightarrow>
    loop_step s s'"

inductive reachable :: "string \<Rightarrow> sys \<Rightarrow> bool" where
  start: "reachable input (main_start input)"
| step: "reachable input s \<Longrightarrow> loop_step s s' \<Longrightarrow> reachable input s'"

inductive_cases loop_stepE: "loop_step s s'"

subsection \<open>One pass of the loop\<close>

lemma sys_more_db: "world.more (s' :: sys) = world.more s \<Longrightarrow> db s' = db s"
  by (cases s, cases s') simp

lemma display_prompt_db [simp]: "db (display_prompt s) = db s"
  by (simp add: display_prompt_eq)

lemma take_choice_db:
  "take_input_and_verify (display_prompt s) = Some (Inr (c, s1)) \<Longrightarrow> db s1 = db s"
proof -
  assume "take_input_and_verify (display_prompt s) = Some (Inr (c, s1))"
  then have "world.more s1 = world.more (display_prompt s)"
    by (rule take_input_and_verify_more)
  then have "db s1 = db (display_prompt s)"
    by (cases s1, cases "display_prompt s") simp
  then show ?thesis by simp
qed

lemma loop_iteration_choice:
  "take_input_and_verify (display_prompt s) = Some (Inr (c, s1)) \<Longrightarrow>
   loop_iteration ks s = Some (dispatch ks c s1)"
  by (simp add: loop_iteration_def)

lemma loop_iteration_Inr:
  "loop_iteration ks s = Some (Inr s') \<Longrightarrow>
   \<exists>c s1. take_input_and_verify (display_prompt s) = Some (Inr (c, s1)) \<and>
          dispatch ks c s1 = Inr s'"
  by (auto simp: loop_iteration_def bind_eq_Some_conv split: sum.splits prod.splits)
    (metis sumE surj_pair)


lemma dispatch_wf:
  assumes "mm_wf (db s)" and "dispatch ks c s = Inr s'"
  shows "mm_wf (db s')"
proof (cases c)
  case Create
  with assms show ?thesis by (auto simp: dispatch_def create_entry_wf)
next
  case Update
  with assms show ?thesis by (simp add: dispatch_def update_entry_wf)
next
  case Select
  with assms show ?thesis by (simp add: dispatch_def select_entry_wf)
next
  case Delete
  with assms show ?thesis by (auto simp: dispatch_def delete_entry_wf)
next
  case ViewAll
  with assms show ?thesis by (auto simp: dispatch_def)
qed

lemma dispatch_no_panic:
  assumes "mm_wf (db s)"
  shows "\<exists>s'. dispatch ks c s = Inr s'"
proof (cases c)
  case Update
  then show ?thesis using update_entry_no_panic [OF assms] by (simp add: dispatch_def)
next
  case Select
  then show ?thesis using select_entry_no_panic [OF assms] by (simp add: dispatch_def)
qed (simp_all add: dispatch_def)

lemma loop_step_wf:
  assumes "loop_step s s'" and "mm_wf (db s)"
  shows "mm_wf (db s')"
proof -
  obtain ks c s1 where t: "take_input_and_verify (display_prompt s) = Some (Inr (c, s1))"
    and d: "dispatch ks c s1 = Inr s'"
    using assms(1) by (auto elim!: loop_stepE dest!: loop_iteration_Inr)
  from t have "db s1 = db s" by (rule take_choice_db)
  with assms(2) have "mm_wf (db s1)" by simp
  from this d show ?thesis by (rule dispatch_wf)
qed

lemma main_start_wf: "mm_wf (db (main_start input))"
  by (simp add: main_start_def create_database_def)


lemma dispatch_frame: "dispatch ks c s = Inr s' \<Longrightarrow> console_frame s s'"
  by (cases c) (auto simp: dispatch_def create_entry_frame update_entry_frame select_entry_frame
      delete_entry_frame view_all_entries_frame)

lemma display_prompt_frame: "console_frame s (display_prompt s)"
  by (simp add: display_prompt_eq console_frame_def)

lemma loop_step_frame:
  assumes "loop_step s s'"
  shows "console_frame s s'"
proof -
  obtain ks c s1 where t: "take_input_and_verify (display_prompt s) = Some (Inr (c, s1))"
    and d: "dispatch ks c s1 = Inr s'"
    using assms by (auto elim!: loop_stepE dest!: loop_iteration_Inr)
  have "console_frame (display_prompt s) s1" using t by (rule take_input_and_verify_frame)
  with display_prompt_frame have "console_frame s s1" by (rule console_frame_trans)
  moreover have "console_frame s1 s'" using d by (rule dispatch_frame)
  ultimately show ?thesis by (rule console_frame_trans)
qed

subsection \<open>Reachable states\<close>

lemma reachable_wf: "reachable input s \<Longrightarrow> mm_wf (db s)"
proof (induction rule: reachable.induct)
  case (start input)
  show ?case by (rule main_start_wf)
next
  case (step input s s')
  then show ?case by (blast intro: loop_step_wf)
qed

lemma reachable_frame: "reachable input s \<Longrightarrow> console_frame (main_start input) s"
proof (induction rule: reachable.induct)
  case (start input)
  show ?case by simp
next
  case (step input s s')
  then show ?case using loop_step_frame console_frame_trans by blast
qed

lemma loop_iteration_valid:
  assumes "mm_wf (db s)" and "stdin s = l @ nl # r" and "nl \<notin> set l"
    and "\<not> choice_invalid (parse_choice l)"
  shows "\<exists>s'. loop_iteration ks s = Some (Inr s')"
proof -
  have "stdin (display_prompt s) = l @ nl # r" using assms(2) by (simp add: display_prompt_eq)
  then obtain ch where t: "take_input_and_verify (display_prompt s) =
      Some (Inr (ch, (print ''> '' (display_prompt s))\<lparr>stdin := r\<rparr>))"
    using take_input_and_verify_valid assms(3,4) by blast
  then have "db ((print ''> '' (display_prompt s))\<lparr>stdin := r\<rparr>) = db s"
    by (rule take_choice_db)
  with assms(1) obtain s' where "dispatch ks ch ((print ''> '' (display_prompt s))\<lparr>stdin := r\<rparr>) = Inr s'"
    using dispatch_no_panic by metis
  with t show ?thesis by (simp add: loop_iteration_def)
qed

lemma reachable_first_step:
  "loop_iteration [] (main_start input) = Some (Inr s') \<Longrightarrow> reachable input s'"
  by (rule reachable.step [OF reachable.start loop_step.iteration])
    (simp_all add: mm_iteration_order_def main_start_def create_database_def mm_new_def)

lemma loop_iteration_Inr_iff:
  assumes "mm_wf (db s)"
  shows "loop_iteration ks s = Some (Inr s') \<longleftrightarrow>
    (\<exists>ch. select_choice (parse_choice (fst (split_line (stdin s)))) = Inr ch \<and>
          dispatch ks ch ((print ''> '' (display_prompt s))\<lparr>stdin := snd (split_line (stdin s))\<rparr>) =
            Inr s')"
proof
  assume "loop_iteration ks s = Some (Inr s')"
  then obtain c s1 where t: "take_input_and_verify (display_prompt s) = Some (Inr (c, s1))"
    and d: "dispatch ks c s1 = Inr s'"
    using loop_iteration_Inr by blast
  then show "\<exists>ch. select_choice (parse_choice (fst (split_line (stdin s)))) = Inr ch \<and>
      dispatch ks ch ((print ''> '' (display_prompt s))\<lparr>stdin := snd (split_line (stdin s))\<rparr>) = Inr s'"
    by (auto simp: take_input_and_verify_Inr_iff)
next
  assume "\<exists>ch. select_choice (parse_choice (fst (split_line (stdin s)))) = Inr ch \<and>
      dispatch ks ch ((print ''> '' (display_prompt s))\<lparr>stdin := snd (split_line (stdin s))\<rparr>) = Inr s'"
  then show "loop_iteration ks s = Some (Inr s')"
    by (auto simp: loop_iteration_def take_input_and_verify_Inr_iff [THEN iffD2])
qed

lemma dispatch_finite:
  assumes "finite (Mapping.keys (db s))" and "dispatch ks c s = Inr s'"
  shows "finite (Mapping.keys (db s'))"
  using assms
  by (auto simp: dispatch_def create_entry_def update_entry_def select_entry_def
      delete_entry_def view_all_entries_eq Let_def split_def mm_keys_set_first
      split: choice.splits if_splits option.splits)

lemma loop_step_finite:
  assumes "loop_step s s'" and "finite (Mapping.keys (db s))"
  shows "finite (Mapping.keys (db s'))"
proof -
  obtain ks c s1 where t: "take_input_and_verify (display_prompt s) = Some (Inr (c, s1))"
    and d: "dispatch ks c s1 = Inr s'"
    using assms(1) by (auto elim!: loop_stepE dest!: loop_iteration_Inr)
  from t have "db s1 = db s" by (rule take_choice_db)
  with assms(2) d show ?thesis using dispatch_finite by metis
qed

lemma reachable_finite: "reachable input s \<Longrightarrow> finite (Mapping.keys (db s))"
proof (induction rule: reachable.induct)
  case (start input)
  show ?case by (simp add: main_start_def create_database_def mm_new_def)
next
  case (step input s s')
  then show ?case by (blast intro: loop_step_finite)
qed

lemma iteration_order_exists: "finite (Mapping.keys m) \<Longrightarrow> \<exists>ks. mm_iteration_order ks m"
  using finite_distinct_list by (auto simp: mm_iteration_order_def)

text \<open>The definitions a closed run of the program unfolds to, for evaluation by \<open>simp\<close>.\<close>

lemmas program_eval =
  loop_iteration_def main_start_def display_prompt_eq take_input_and_verify.simps read_line_def
  parse_choice_def parse_i32_def trim_def is_whitespace_def to_digit_def i32_min_def i32_max_def
  choice_invalid_def options_def select_choice_def i32_sub_checked_def from_i32_def dispatch_def
  create_entry_def update_entry_def select_entry_def delete_entry_def view_all_entries_def
  println_def print_def create_database_def caution_msg_def Let_def
  mm_new_def mm_insert_def mm_contains_key_def mm_get_vec_def mm_set_first_def mm_remove_def
  mm_iter_def

end
