(* ===== verification/Machine.thy ===== *)
theory Machine
  imports Program
begin

text \<open>
  The command loop at the level of the specification: the store is the abstract
  store \<open>astore\<close> (a total function from keys to value lists), the console is only
  the unread input, read a line at a time and trimmed, and output is ignored.
  \<open>spec_selection\<close> is the menu of the specification (the selection line is a
  number from 1 to 5 naming one of the five operations in the order the menu lists
  them), \<open>spec_op\<close> one operation of the specification with the lines it reads,
  \<open>spec_pass\<close> one pass of the loop (a selection line, then the operation), and
  \<open>spec_run\<close> a number of passes. The theory proves that the handlers, a pass of
  \<^verbatim>\<open>program_loop\<close> and every reachable state of the program refine this machine.
\<close>

definition next_line :: "string \<Rightarrow> string \<times> string" where
  "next_line inp = (let (l, r) = split_line inp in (trim l, r))"

definition spec_ops :: "choice list" where
  "spec_ops = [Create, Select, Update, Delete, ViewAll]"

definition spec_selection :: "string \<Rightarrow> choice option" where
  "spec_selection l =
     (case parse_i32 (trim l) of
        Inl _ \<Rightarrow> None
      | Inr n \<Rightarrow>
          if 1 \<le> sint n \<and> sint n \<le> int (length spec_ops) then Some (spec_ops ! nat (sint n - 1))
          else None)"

definition spec_op :: "choice \<Rightarrow> astore \<Rightarrow> string \<Rightarrow> astore \<times> string" where
  "spec_op ch S inp =
     (case ch of
        Create \<Rightarrow>
          (let (k, r1) = next_line inp; (v, r2) = next_line r1 in (S(k := S k @ [v]), r2))
      | Select \<Rightarrow> (S, snd (next_line inp))
      | Update \<Rightarrow>
          (let (k, r1) = next_line inp
           in if S k = [] then (S, r1)
              else let (v, r2) = next_line r1 in (S(k := v # tl (S k)), r2))
      | Delete \<Rightarrow> (let (k, r1) = next_line inp in (S(k := []), r1))
      | ViewAll \<Rightarrow> (S, inp))"

definition spec_pass :: "astore \<Rightarrow> string \<Rightarrow> (astore \<times> string) option" where
  "spec_pass S inp =
     (let (l, r) = split_line inp
      in case spec_selection l of
           None \<Rightarrow> None
         | Some ch \<Rightarrow> Some (spec_op ch S r))"

fun spec_run :: "nat \<Rightarrow> astore \<Rightarrow> string \<Rightarrow> (astore \<times> string) option" where
  "spec_run 0 S inp = Some (S, inp)"
| "spec_run (Suc n) S inp =
     (case spec_pass S inp of None \<Rightarrow> None | Some (S', inp') \<Rightarrow> spec_run n S' inp')"

subsection \<open>The menu refines \<open>spec_selection\<close>\<close>

lemma spec_ops_discriminant: "spec_ops ! discriminant ch = ch"
  by (cases ch) (simp_all add: spec_ops_def)

lemma select_choice_spec:
  "select_choice (parse_choice l) = Inr ch \<longleftrightarrow> spec_selection l = Some ch"
proof
  assume sel: "select_choice (parse_choice l) = Inr ch"
  then obtain n ch' where p: "parse_choice l = Some n" and sel': "select_choice (parse_choice l) = Inr ch'"
    and d: "int (discriminant ch') = sint n - 1"
    using select_choice_valid [OF select_choice_Inr_valid] by blast
  have "\<not> choice_invalid (Some n)" using sel p select_choice_Inr_valid by metis
  then have r: "1 \<le> sint n" "sint n \<le> 5" by (simp_all add: choice_invalid_def options_def)
  have "ch' = ch" using sel sel' by simp
  moreover have "parse_i32 (trim l) = Inr n" using p by (simp add: parse_choice_def split: sum.splits)
  moreover have "nat (sint n - 1) = discriminant ch'" using d by simp
  ultimately show "spec_selection l = Some ch"
    using r by (simp add: spec_selection_def spec_ops_discriminant) (simp add: spec_ops_def)
next
  assume "spec_selection l = Some ch"
  then obtain n where p: "parse_i32 (trim l) = Inr n" and r: "1 \<le> sint n" "sint n \<le> 5"
    and ch: "ch = spec_ops ! nat (sint n - 1)"
    by (auto simp: spec_selection_def spec_ops_def split: sum.splits if_splits)
  have pc: "parse_choice l = Some n" using p by (simp add: parse_choice_def)
  then have "\<not> choice_invalid (parse_choice l)" using r by (simp add: choice_invalid_def options_def)
  then obtain ch' where sel: "select_choice (parse_choice l) = Inr ch'"
    and d: "int (discriminant ch') = sint n - 1"
    using select_choice_valid pc by fastforce
  have "nat (sint n - 1) = discriminant ch'" using d by simp
  with ch have "ch = ch'" by (simp add: spec_ops_discriminant)
  with sel show "select_choice (parse_choice l) = Inr ch" by simp
qed

subsection \<open>The handlers refine \<open>spec_op\<close>\<close>

lemma next_line_split: "next_line inp = (trim (fst (split_line inp)), snd (split_line inp))"
  by (simp add: next_line_def split_def Let_def)

lemmas machine_simps = read_line_split next_line_split Let_def split_def

lemma create_entry_refines:
  "(mm_abs (db (create_entry s)), stdin (create_entry s)) = spec_op Create (mm_abs (db s)) (stdin s)"
  by (simp add: create_entry_def spec_op_def machine_simps mm_abs_insert)

lemma delete_entry_refines:
  "mm_wf (db s) \<Longrightarrow>
   (mm_abs (db (delete_entry s)), stdin (delete_entry s)) = spec_op Delete (mm_abs (db s)) (stdin s)"
  by (auto simp: delete_entry_def spec_op_def machine_simps mm_abs_remove mm_contains_key_abs
      fun_eq_iff)

lemma select_entry_refines:
  "select_entry s = Inr s' \<Longrightarrow>
   (mm_abs (db s'), stdin s') = spec_op Select (mm_abs (db s)) (stdin s)"
  by (auto simp: select_entry_def spec_op_def machine_simps fold_println
      split: if_splits option.splits)

lemma update_entry_refines:
  assumes "mm_wf (db s)" and "update_entry s = Inr s'"
  shows "(mm_abs (db s'), stdin s') = spec_op Update (mm_abs (db s)) (stdin s)"
  using assms
  by (auto simp: update_entry_def spec_op_def machine_simps mm_contains_key_abs mm_get_vec_abs
      mm_abs_set_first split: if_splits option.splits)

lemma dispatch_refines:
  assumes "mm_wf (db s)" and "dispatch ks ch s = Inr s'"
  shows "(mm_abs (db s'), stdin s') = spec_op ch (mm_abs (db s)) (stdin s)"
proof (cases ch)
  case Create
  with assms show ?thesis using create_entry_refines [of s] by (simp add: dispatch_def)
next
  case Select
  with assms show ?thesis using select_entry_refines [of s s'] by (simp add: dispatch_def)
next
  case Update
  with assms show ?thesis using update_entry_refines [of s s'] by (simp add: dispatch_def)
next
  case Delete
  with assms show ?thesis using delete_entry_refines [of s] by (simp add: dispatch_def)
next
  case ViewAll
  with assms show ?thesis by (auto simp: dispatch_def spec_op_def view_all_entries_eq)
qed

subsection \<open>A pass of \<^verbatim>\<open>program_loop\<close> refines \<open>spec_pass\<close>\<close>

lemma loop_iteration_refines:
  assumes "mm_wf (db s)" and "loop_iteration ks s = Some (Inr s')"
  shows "spec_pass (mm_abs (db s)) (stdin s) = Some (mm_abs (db s'), stdin s')"
proof -
  let ?s1 = "(print ''> '' (display_prompt s))\<lparr>stdin := snd (split_line (stdin s))\<rparr>"
  obtain ch where sel: "select_choice (parse_choice (fst (split_line (stdin s)))) = Inr ch"
    and d: "dispatch ks ch ?s1 = Inr s'"
    using assms loop_iteration_Inr_iff by blast
  have "mm_wf (db ?s1)" "mm_abs (db ?s1) = mm_abs (db s)" "stdin ?s1 = snd (split_line (stdin s))"
    using assms(1) by (simp_all add: print_def)
  with d have "(mm_abs (db s'), stdin s') = spec_op ch (mm_abs (db s)) (snd (split_line (stdin s)))"
    using dispatch_refines [of ?s1 ks ch s'] by simp
  with sel show ?thesis by (simp add: spec_pass_def split_def select_choice_spec)
qed

lemma spec_pass_implemented:
  assumes "mm_wf (db s)" and "spec_pass (mm_abs (db s)) (stdin s) = Some (S', r')"
  shows "\<exists>s'. loop_iteration ks s = Some (Inr s') \<and> mm_abs (db s') = S' \<and> stdin s' = r'"
proof -
  let ?s1 = "(print ''> '' (display_prompt s))\<lparr>stdin := snd (split_line (stdin s))\<rparr>"
  obtain ch where "spec_selection (fst (split_line (stdin s))) = Some ch"
    using assms(2) by (cases "spec_selection (fst (split_line (stdin s)))")
      (simp_all add: spec_pass_def Let_def split_def)
  then have sel: "select_choice (parse_choice (fst (split_line (stdin s)))) = Inr ch"
    by (simp add: select_choice_spec)
  have wf1: "mm_wf (db ?s1)" using assms(1) by (simp add: print_def)
  then obtain s' where d: "dispatch ks ch ?s1 = Inr s'" using dispatch_no_panic by blast
  then have it: "loop_iteration ks s = Some (Inr s')"
    using assms(1) sel loop_iteration_Inr_iff by blast
  have "spec_pass (mm_abs (db s)) (stdin s) = Some (mm_abs (db s'), stdin s')"
    using assms(1) it by (rule loop_iteration_refines)
  with assms(2) it show ?thesis by simp
qed

subsection \<open>The reachable states refine the runs of the machine\<close>

lemma spec_run_snoc:
  "spec_run n S inp = Some (S1, i1) \<Longrightarrow> spec_pass S1 i1 = Some (S2, i2) \<Longrightarrow>
   spec_run (Suc n) S inp = Some (S2, i2)"
proof (induction n arbitrary: S inp)
  case 0
  then show ?case by simp
next
  case (Suc n)
  obtain a b where p: "spec_pass S inp = Some (a, b)" and r: "spec_run n a b = Some (S1, i1)"
    using Suc.prems(1) by (auto split: option.splits)
  have "spec_run (Suc n) a b = Some (S2, i2)" using Suc.IH [OF r Suc.prems(2)] .
  with p show ?case by (simp del: spec_run.simps(2) add: spec_run.simps(2) [of "Suc n"])
qed

lemma main_start_abs [simp]:
  "mm_abs (db (main_start input)) = (\<lambda>_. [])" "stdin (main_start input) = input"
  by (simp_all add: main_start_def create_database_def)

lemma reachable_spec_run:
  "reachable input s \<Longrightarrow> \<exists>n. spec_run n (\<lambda>_. []) input = Some (mm_abs (db s), stdin s)"
proof (induction rule: reachable.induct)
  case (start input)
  have "spec_run 0 (\<lambda>_. []) input = Some (mm_abs (db (main_start input)), stdin (main_start input))"
    by simp
  then show ?case by blast
next
  case (step input s s')
  then obtain n where n: "spec_run n (\<lambda>_. []) input = Some (mm_abs (db s), stdin s)" by blast
  obtain ks where "loop_iteration ks s = Some (Inr s')"
    using step.hyps(2) by (auto elim: loop_stepE)
  then have "spec_pass (mm_abs (db s)) (stdin s) = Some (mm_abs (db s'), stdin s')"
    using reachable_wf [OF step.hyps(1)] loop_iteration_refines by blast
  with n show ?case by (blast intro: spec_run_snoc)
qed

lemma spec_run_reachable:
  "reachable input s \<Longrightarrow> spec_run n (mm_abs (db s)) (stdin s) = Some (S, r) \<Longrightarrow>
   \<exists>s'. reachable input s' \<and> mm_abs (db s') = S \<and> stdin s' = r"
proof (induction n arbitrary: s)
  case 0
  then show ?case by auto
next
  case (Suc n)
  then obtain S1 r1 where p: "spec_pass (mm_abs (db s)) (stdin s) = Some (S1, r1)"
    and rest: "spec_run n S1 r1 = Some (S, r)"
    by (auto split: option.splits)
  obtain ks where ks: "mm_iteration_order ks (db s)"
    using iteration_order_exists reachable_finite [OF Suc.prems(1)] by blast
  obtain s1 where it: "loop_iteration ks s = Some (Inr s1)" and a: "mm_abs (db s1) = S1"
    and i: "stdin s1 = r1"
    using spec_pass_implemented [OF reachable_wf [OF Suc.prems(1)] p] by blast
  have "reachable input s1" using Suc.prems(1) loop_step.iteration [OF ks it] by (rule reachable.step)
  with rest a i show ?case using Suc.IH by blast
qed

text \<open>The definitions a closed run of the machine unfolds to, for evaluation by \<open>simp\<close>.\<close>

lemmas machine_eval = spec_pass_def spec_selection_def spec_ops_def spec_op_def next_line_def
  parse_i32_def trim_def is_whitespace_def to_digit_def i32_min_def i32_max_def Let_def

end
