(* ===== verification/Spec2Isabelle.thy ===== *)
theory Spec2Isabelle
  imports Machine
begin

text \<open>
  \<^bold>\<open>A verification model of the in-memory key/value database of \<^verbatim>\<open>src/main.rs\<close>.\<close>

  \<^bold>\<open>The program.\<close> \<^verbatim>\<open>src/main.rs\<close> keeps one
  \<^verbatim>\<open>MultiMap<String, String>\<close> (crate \<^verbatim>\<open>multimap\<close>, a \<^verbatim>\<open>HashMap\<close> from keys to
  vectors of values) and runs \<^verbatim>\<open>program_loop\<close>: print the menu
  (\<^verbatim>\<open>display_prompt\<close>), read and check a selection (\<^verbatim>\<open>take_input_and_verify\<close>),
  run one of five handlers (\<^verbatim>\<open>create_entry\<close>, \<^verbatim>\<open>select_entry\<close>,
  \<^verbatim>\<open>update_entry\<close>, \<^verbatim>\<open>delete_entry\<close>, \<^verbatim>\<open>view_all_entries\<close>), which read their
  key and value lines from standard input and print to standard output, and call
  itself again. Control flows one way: console, loop, handler, store, console.

  \<^bold>\<open>The library.\<close>
  \<^item> \<open>Prelude\<close>: key and value types (byte strings), the \<open>panic\<close> datatype
    (\<^verbatim>\<open>unwrap\<close> on \<^verbatim>\<open>None\<close>, \<^verbatim>\<open>expect\<close> with its message, an
    overflowing \<^verbatim>\<open>i32\<close> subtraction) and the result type
    \<open>'a outcome = panic + 'a\<close>; shared lemmas on mappings, sums, lists and 32-bit words.
  \<^item> \<open>Store\<close>: the crate's \<^verbatim>\<open>MultiMap\<close> as \<open>(key, val list) mapping\<close>, one
    definition per method the program calls (\<open>mm_new\<close>, \<open>mm_insert\<close>,
    \<open>mm_contains_key\<close>, \<open>mm_get_vec\<close>, \<open>mm_get_mut\<close>/\<open>mm_set_first\<close>,
    \<open>mm_remove\<close>, \<open>mm_iter\<close>). The crate is not in the repository: these follow its
    documented behaviour. The invariant \<open>mm_wf\<close> (no key holds an empty vector), the
    abstract store \<open>mm_abs\<close> (a total function from keys to value lists, the store of
    the specification) and the refinement lemmas live here. The hash map's iteration
    order is a parameter \<open>ks\<close> constrained by \<open>mm_iteration_order\<close> only.
  \<^item> \<open>Console\<close>: standard input and output as the record \<open>world\<close>; \<^verbatim>\<open>println!\<close>,
    \<^verbatim>\<open>print!\<close>, \<^verbatim>\<open>read_line\<close> (returns the bytes up to and including the next
    newline, nothing at end of input), \<^verbatim>\<open>str::trim\<close>, \<^verbatim>\<open>str::parse::<i32>\<close>
    (with Rust's error kinds and checked accumulation), the overflow-checked
    \<^verbatim>\<open>i32\<close> subtraction \<open>i32_sub_checked\<close> and the decimal printing of
    \<^verbatim>\<open>usize\<close>.
  \<^item> \<open>Menu\<close>: \<^verbatim>\<open>Choice\<close>, \<^verbatim>\<open>OPTIONS\<close>, the derived \<^verbatim>\<open>FromPrimitive::from_i32\<close>,
    \<^verbatim>\<open>display_prompt\<close>, and \<^verbatim>\<open>take_input_and_verify\<close> as a
    \<^theory_text>\<open>partial_function (option)\<close>: \<open>None\<close> is the recursion that never returns.
    The subtraction \<^verbatim>\<open>choice.unwrap() - 1\<close> is \<open>i32_sub_checked\<close>, the
    arithmetic of a debug build (\<^verbatim>\<open>cargo run\<close>): on \<^verbatim>\<open>i32::MIN\<close> it panics with
    \<open>Sub_overflow\<close>. A release build wraps to \<^verbatim>\<open>i32::MAX\<close> and panics in the
    following \<^verbatim>\<open>expect\<close>; either way that input panics.
  \<^item> \<open>Handlers\<close>: the program state \<open>sys\<close> (the console extended by the store) and
    the five handlers, each one definition in the order of its statements, with the
    \<^verbatim>\<open>unwrap\<close>s as \<open>Inl\<close> branches.
  \<^item> \<open>Program\<close>: \<open>dispatch\<close> (the \<^verbatim>\<open>match\<close> of \<^verbatim>\<open>program_loop\<close>), one pass of the
    loop \<open>loop_iteration\<close>, \<^verbatim>\<open>main\<close> as \<open>main_start\<close>, the step relation
    \<open>loop_step\<close> (an inductive predicate that chooses the iteration order of the hash
    map at each step), and the reachable states \<open>reachable\<close> from a given standard
    input.
  \<^item> \<open>Machine\<close>: the command loop of the specification as an abstract machine on
    the abstract store and the unread input (output ignored): its menu
    \<open>spec_selection\<close> (a number from 1 to 5 naming an operation in menu order), one
    operation \<open>spec_op\<close> with the key and value lines it reads, one pass
    \<open>spec_pass\<close>, and \<open>spec_run\<close>, a number of passes. It is written from the
    specification, not from the code, and the refinement lemmas relate each handler,
    each pass and each reachable state of the program to it.

  \<^bold>\<open>Bounds and fuel.\<close> No fuel bounds a proof here: \<^verbatim>\<open>program_loop\<close> never
  returns, so it is a step relation and the properties are invariants of its reachable
  states; \<open>spec_run\<close>'s pass count is the number of passes, existentially
  quantified in the refinement theorem (every reachable state needs only finitely many
  passes), and fixed only in concrete scenarios. The
  only unbounded recursion, \<^verbatim>\<open>take_input_and_verify\<close>, is a partial function whose
  non-termination is proved where it happens (end of input).

  \<^bold>\<open>The properties\<close> (claims C1 to C16 below, in order of importance): the store
  invariant on every reachable state and the safety of every \<^verbatim>\<open>unwrap\<close> it implies;
  that a pass with a valid selection completes; the two ways the menu loop fails
  (a re-prompt panics, end of input recurses forever); the contract of each handler
  stated on the abstract store (insert appends, update changes only the first value,
  a missing key is reported and changes nothing, delete removes all values, select
  prints the values in insertion order); the listing of all entries, whose
  multiset does not depend on the hash order; the menu round trip (the number
  printed beside an option selects it); the three kinds of panic an invalid
  selection raises; one call of \<^verbatim>\<open>take_input_and_verify\<close> on a valid line; and
  the refinement of the specification's machine by each handler, by each pass of the
  loop and by the reachable states of the whole program.

  \<^bold>\<open>Not modelled.\<close> I/O errors of \<^verbatim>\<open>read_line\<close> and \<^verbatim>\<open>flush\<close> (their
  \<^verbatim>\<open>expect\<close>s) and invalid UTF-8 input; non-ASCII whitespace in \<^verbatim>\<open>trim\<close>; the
  growth of the call stack of the recursive \<^verbatim>\<open>program_loop\<close> (each pass is modelled,
  a stack overflow after many passes is not); the hash function that fixes the
  iteration order.
\<close>

section \<open>The store invariant and the safety of the unwraps\<close>

text \<open>
  C1. In every state the program reaches from any standard input, every key the
  store contains holds a non-empty vector: \<^verbatim>\<open>get_vec\<close> returns it and
  \<^verbatim>\<open>get_mut\<close> returns its first value, so the \<^verbatim>\<open>unwrap\<close>s of
  \<^verbatim>\<open>update_entry\<close> and \<^verbatim>\<open>select_entry\<close> never fail.
\<close>

theorem reachable_unwraps_safe:
  assumes "reachable input s" and "mm_contains_key (db s) k"
  shows "\<exists>v vs. mm_get_vec (db s) k = Some (v # vs) \<and> mm_get_mut (db s) k = Some v"
proof -
  have wf: "mm_wf (db s)" using assms(1) by (rule reachable_wf)
  then have "mm_abs (db s) k \<noteq> []" using assms(2) by (simp add: mm_contains_key_abs)
  then obtain v vs where "mm_abs (db s) k = v # vs" by (cases "mm_abs (db s) k") auto
  with wf show ?thesis by (simp add: mm_get_vec_abs mm_get_mut_abs)
qed

theorem reachable_unwraps_safe_witness:
  "\<exists>s. reachable ''1\<newline>color\<newline>red\<newline>'' s \<and> mm_contains_key (db s) ''color'' \<and>
       (\<exists>v vs. mm_get_vec (db s) ''color'' = Some (v # vs) \<and> mm_get_mut (db s) ''color'' = Some v)"
proof -
  have "\<exists>s. loop_iteration [] (main_start ''1\<newline>color\<newline>red\<newline>'') = Some (Inr s) \<and>
      mm_contains_key (db s) ''color''"
    by (simp add: program_eval)
  then obtain s where it: "loop_iteration [] (main_start ''1\<newline>color\<newline>red\<newline>'') = Some (Inr s)"
    and c: "mm_contains_key (db s) ''color''" by blast
  have r: "reachable ''1\<newline>color\<newline>red\<newline>'' s" using it by (rule reachable_first_step)
  with c show ?thesis using reachable_unwraps_safe [OF r c] by blast
qed

text \<open>
  C2. From any reachable state whose next input line is a valid selection (a number
  from 1 to 5 after trimming), one pass of \<^verbatim>\<open>program_loop\<close> completes without a
  panic, whatever the order in which the hash map yields its keys.
\<close>

theorem valid_selection_completes:
  assumes "reachable input s" and "stdin s = l @ nl # r" and "nl \<notin> set l"
    and "\<not> choice_invalid (parse_choice l)"
  shows "\<exists>s'. loop_iteration ks s = Some (Inr s')"
  using loop_iteration_valid [OF reachable_wf [OF assms(1)] assms(2-4)] .

theorem valid_selection_completes_witness:
  "reachable ''4\<newline>k\<newline>'' (main_start ''4\<newline>k\<newline>'') \<and>
   \<not> choice_invalid (parse_choice ''4'') \<and>
   (\<exists>s'. loop_iteration [''k''] (main_start ''4\<newline>k\<newline>'') = Some (Inr s'))"
proof -
  have r: "reachable ''4\<newline>k\<newline>'' (main_start ''4\<newline>k\<newline>'')" by (rule reachable.start)
  have v: "\<not> choice_invalid (parse_choice ''4'')" by (simp add: program_eval)
  have "stdin (main_start ''4\<newline>k\<newline>'') = ''4'' @ nl # ''k\<newline>''"
    by (simp add: main_start_def println_def)
  then have "\<exists>s'. loop_iteration [''k''] (main_start ''4\<newline>k\<newline>'') = Some (Inr s')"
    using valid_selection_completes [OF r _ _ v] by simp
  with r v show ?thesis by blast
qed

section \<open>How the menu loop fails\<close>

text \<open>
  C3. An invalid selection is not recovered: when the next line is not a number from 1
  to 5, \<^verbatim>\<open>take_input_and_verify\<close> prints the message and re-prompts, but it discards
  the re-prompt's result and then unwraps the invalid choice, so a valid second line
  still ends the pass, and the process, in a panic.
\<close>

theorem reprompt_panics:
  assumes "stdin s = l1 @ nl # l2 @ nl # r" and "nl \<notin> set l1" and "nl \<notin> set l2"
    and "choice_invalid (parse_choice l1)" and "\<not> choice_invalid (parse_choice l2)"
  shows "\<exists>p. loop_iteration ks s = Some (Inl p)"
proof -
  have "stdin (display_prompt s) = l1 @ nl # l2 @ nl # r"
    using assms(1) by (simp add: display_prompt_eq)
  then obtain p where "take_input_and_verify (display_prompt s) = Some (Inl p)"
    using take_input_and_verify_reprompt assms(2-5) by blast
  then show ?thesis by (simp add: loop_iteration_def)
qed

theorem reprompt_panics_witness:
  "choice_invalid (parse_choice ''x'') \<and> \<not> choice_invalid (parse_choice ''1'') \<and>
   (\<exists>p. loop_iteration [] (main_start ''x\<newline>1\<newline>'') = Some (Inl p))"
proof -
  have i: "choice_invalid (parse_choice ''x'')" and v: "\<not> choice_invalid (parse_choice ''1'')"
    by (simp_all add: program_eval)
  have "stdin (main_start ''x\<newline>1\<newline>'') = ''x'' @ nl # ''1'' @ nl # []"
    by (simp add: main_start_def println_def)
  then have "\<exists>p. loop_iteration [] (main_start ''x\<newline>1\<newline>'') = Some (Inl p)"
    using reprompt_panics [OF _ _ _ i v] by simp
  with i v show ?thesis by blast
qed

text \<open>
  C4. At the end of input \<^verbatim>\<open>read_line\<close> returns nothing, which is an invalid
  selection, and \<^verbatim>\<open>take_input_and_verify\<close> re-prompts forever: the pass never
  returns (in the process, the stack overflows). End of input does not end the program.
\<close>

theorem end_of_input_never_returns:
  "stdin s = [] \<Longrightarrow> loop_iteration ks s = None"
  by (simp add: loop_iteration_def display_prompt_eq take_input_and_verify_eof)

theorem end_of_input_never_returns_witness:
  "stdin (main_start []) = [] \<and> loop_iteration [] (main_start []) = None"
proof -
  have e: "stdin (main_start []) = []" by (simp add: main_start_def println_def)
  then show ?thesis using end_of_input_never_returns [OF e] by simp
qed

section \<open>The handlers against the abstract store\<close>

text \<open>
  C5. \<^verbatim>\<open>create_entry\<close> reads a key line and a value line and appends the trimmed value
  to the trimmed key's values (creating the key if it is absent), consuming exactly the
  two lines and printing its three messages.
\<close>

theorem create_entry_appends:
  assumes "stdin s = k @ nl # v @ nl # r" and "nl \<notin> set k" and "nl \<notin> set v"
  shows "mm_abs (db (create_entry s)) = (mm_abs (db s))(trim k := mm_abs (db s) (trim k) @ [trim v]) \<and>
         stdin (create_entry s) = r \<and>
         stdout (create_entry s) = stdout s @ ''Enter key: '' @ [nl] @ ''Enter value: '' @ [nl] @
           ''Entry stored successfully!'' @ [nl]"
  using assms by (simp add: create_entry_eq mm_abs_insert)

theorem create_entry_appends_witness:
  "mm_abs (db (create_entry \<lparr>stdin = '' color \<newline>red\<newline>'', stdout = [],
      db = mm_insert ''color'' ''blue'' mm_new\<rparr>)) ''color'' = [''blue'', ''red'']"
proof -
  let ?s = "\<lparr>stdin = '' color \<newline>red\<newline>'', stdout = [], db = mm_insert ''color'' ''blue'' mm_new\<rparr>"
  have "mm_abs (db (create_entry ?s)) =
        (mm_abs (db ?s))(trim '' color '' := mm_abs (db ?s) (trim '' color '') @ [trim ''red''])"
    using create_entry_appends [of ?s "'' color ''" "''red''" "[]"] by simp
  then show ?thesis by (simp add: trim_def is_whitespace_def mm_abs_insert)
qed

text \<open>
  C6. On a key that is present, \<^verbatim>\<open>update_entry\<close> replaces only the key's first value
  by the trimmed new value and leaves the others in place; it prints the caution
  exactly when the key holds more than one value.
\<close>

theorem update_entry_first_only:
  assumes "stdin s = k @ nl # v @ nl # r" and "nl \<notin> set k" and "nl \<notin> set v"
    and "mm_wf (db s)" and "mm_contains_key (db s) (trim k)"
  shows "\<exists>s'. update_entry s = Inr s' \<and>
           mm_abs (db s') = (mm_abs (db s))(trim k := trim v # tl (mm_abs (db s) (trim k))) \<and>
           stdin s' = r \<and>
           stdout s' = stdout s @ ''Enter key: '' @ [nl] @
             (if 1 < length (mm_abs (db s) (trim k)) then caution_msg @ [nl] else []) @
             ''Enter updated value: '' @ [nl] @ ''Entry updated successfully.'' @ [nl]"
proof -
  obtain m where m: "mm_set_first (trim k) (trim v) (db s) = Some m"
    and u: "update_entry s = Inr (s\<lparr>stdin := r,
      stdout := stdout s @ ''Enter key: '' @ [nl] @
        (if 1 < length (mm_abs (db s) (trim k)) then caution_msg @ [nl] else []) @
        ''Enter updated value: '' @ [nl] @ ''Entry updated successfully.'' @ [nl],
      db := m\<rparr>)"
    using update_entry_present [OF assms] by blast
  from m have "mm_abs m = (mm_abs (db s))(trim k := trim v # tl (mm_abs (db s) (trim k)))"
    by (rule mm_abs_set_first)
  with u show ?thesis by simp
qed

theorem update_entry_first_only_witness:
  "\<exists>s'. update_entry \<lparr>stdin = ''color\<newline>green\<newline>'', stdout = [],
      db = mm_insert ''color'' ''blue'' (mm_insert ''color'' ''red'' mm_new)\<rparr> = Inr s' \<and>
    mm_abs (db s') ''color'' = [''green'', ''blue'']"
proof -
  let ?m = "mm_insert ''color'' ''blue'' (mm_insert ''color'' ''red'' mm_new)"
  let ?s = "\<lparr>stdin = ''color\<newline>green\<newline>'', stdout = [], db = ?m\<rparr>"
  have wf: "mm_wf ?m" by (intro mm_wf_insert mm_wf_new)
  have c: "mm_contains_key ?m (trim ''color'')"
    by (simp add: trim_def is_whitespace_def mm_contains_key_def mm_insert_def mm_new_def)
  have "stdin ?s = ''color'' @ nl # ''green'' @ nl # []" by simp
  with update_entry_first_only [of ?s "''color''" "''green''" "[]"] wf c obtain s' where
    "update_entry ?s = Inr s'"
    "mm_abs (db s') = (mm_abs ?m)(trim ''color'' := trim ''green'' # tl (mm_abs ?m (trim ''color'')))"
    by auto
  then show ?thesis by (simp add: trim_def is_whitespace_def mm_abs_insert)
qed

text \<open>
  C7. On a key that is absent, \<^verbatim>\<open>update_entry\<close> reports that no such key exists,
  changes nothing in the store, and does not read a value line: the next line is left
  for the menu.
\<close>

theorem update_entry_missing_key:
  assumes "stdin s = k @ nl # r" and "nl \<notin> set k" and "\<not> mm_contains_key (db s) (trim k)"
  shows "\<exists>s'. update_entry s = Inr s' \<and> db s' = db s \<and> stdin s' = r \<and>
           stdout s' = stdout s @ ''Enter key: '' @ [nl] @ ''No such key exists.'' @ [nl]"
  using update_entry_absent [OF assms] by simp

theorem update_entry_missing_key_witness:
  "\<exists>s'. update_entry \<lparr>stdin = ''nokey\<newline>1\<newline>'', stdout = [], db = mm_new\<rparr> = Inr s' \<and>
     db s' = mm_new \<and> stdin s' = ''1\<newline>''"
proof -
  have "\<not> mm_contains_key mm_new (trim ''nokey'')" by (simp add: mm_contains_key_def mm_new_def)
  then have "\<exists>s'. update_entry \<lparr>stdin = ''nokey\<newline>1\<newline>'', stdout = [], db = mm_new\<rparr> = Inr s' \<and>
      db s' = mm_new \<and> stdin s' = ''1\<newline>'' \<and>
      stdout s' = [] @ ''Enter key: '' @ [nl] @ ''No such key exists.'' @ [nl]"
    using update_entry_missing_key [of "\<lparr>stdin = ''nokey\<newline>1\<newline>'', stdout = [], db = mm_new\<rparr>"
        "''nokey''" "''1\<newline>''"] by simp
  then show ?thesis by blast
qed

text \<open>
  C8. \<^verbatim>\<open>select_entry\<close> prints one line \<^verbatim>\<open>key value\<close> for each value of the trimmed
  key, in insertion order, or reports that no such key exists; it reads one line.
\<close>

theorem select_entry_prints_values:
  assumes "stdin s = k @ nl # r" and "nl \<notin> set k" and "mm_wf (db s)"
  shows "select_entry s = Inr (s\<lparr>stdin := r, stdout := stdout s @ ''Enter key: '' @ [nl] @
    (if mm_abs (db s) (trim k) = [] then ''No such key exists.'' @ [nl]
     else concat (map (\<lambda>v. trim k @ '' '' @ v @ [nl]) (mm_abs (db s) (trim k))))\<rparr>)"
proof (cases "mm_contains_key (db s) (trim k)")
  case True
  then show ?thesis
    using select_entry_present [OF assms True] assms(3) by (simp add: mm_contains_key_abs)
next
  case False
  then show ?thesis
    using select_entry_absent [OF assms(1,2) False] assms(3) by (simp add: mm_contains_key_abs)
qed

theorem select_entry_prints_values_witness:
  "select_entry \<lparr>stdin = ''a\<newline>'', stdout = [],
      db = mm_insert ''a'' ''3'' (mm_insert ''b'' ''2'' (mm_insert ''a'' ''1'' mm_new))\<rparr> =
   Inr \<lparr>stdin = [], stdout = ''Enter key: \<newline>a 1\<newline>a 3\<newline>'',
      db = mm_insert ''a'' ''3'' (mm_insert ''b'' ''2'' (mm_insert ''a'' ''1'' mm_new))\<rparr>"
proof -
  let ?m = "mm_insert ''a'' ''3'' (mm_insert ''b'' ''2'' (mm_insert ''a'' ''1'' mm_new))"
  have wf: "mm_wf ?m" by (intro mm_wf_insert mm_wf_new)
  have "stdin \<lparr>stdin = ''a\<newline>'', stdout = [], db = ?m\<rparr> = ''a'' @ nl # []" by simp
  from select_entry_prints_values [OF this _ ] wf show ?thesis
    by (simp add: trim_def is_whitespace_def mm_abs_insert)
qed

text \<open>
  C9. \<^verbatim>\<open>delete_entry\<close> removes the trimmed key with all its values. On an absent key
  it reports that no such key exists and leaves the store unchanged.
\<close>

theorem delete_entry_removes_key:
  assumes "stdin s = k @ nl # r" and "nl \<notin> set k" and "mm_wf (db s)"
  shows "mm_abs (db (delete_entry s)) = (mm_abs (db s))(trim k := []) \<and>
         (mm_abs (db s) (trim k) = [] \<longrightarrow> db (delete_entry s) = db s) \<and>
         stdin (delete_entry s) = r \<and>
         stdout (delete_entry s) = stdout s @ ''Enter key: '' @ [nl] @
           (if mm_abs (db s) (trim k) = [] then ''No such key exists.''
            else ''Entry deleted successfully.'') @ [nl]"
proof (cases "mm_contains_key (db s) (trim k)")
  case True
  then show ?thesis
    using assms by (simp add: delete_entry_eq mm_abs_remove mm_contains_key_abs)
next
  case False
  then have "mm_abs (db s) (trim k) = []" using assms(3) by (simp add: mm_contains_key_abs)
  with False show ?thesis
    using assms by (simp add: delete_entry_eq fun_upd_idem)
qed

theorem delete_entry_removes_key_witness:
  "mm_abs (db (delete_entry \<lparr>stdin = ''a\<newline>'', stdout = [],
      db = mm_insert ''a'' ''3'' (mm_insert ''b'' ''2'' (mm_insert ''a'' ''1'' mm_new))\<rparr>)) ''a'' = [] \<and>
   mm_abs (db (delete_entry \<lparr>stdin = ''a\<newline>'', stdout = [],
      db = mm_insert ''a'' ''3'' (mm_insert ''b'' ''2'' (mm_insert ''a'' ''1'' mm_new))\<rparr>)) ''b'' = [''2'']"
proof -
  let ?m = "mm_insert ''a'' ''3'' (mm_insert ''b'' ''2'' (mm_insert ''a'' ''1'' mm_new))"
  have wf: "mm_wf ?m" by (intro mm_wf_insert mm_wf_new)
  have "stdin \<lparr>stdin = ''a\<newline>'', stdout = [], db = ?m\<rparr> = ''a'' @ nl # []" by simp
  from delete_entry_removes_key [OF this _ ] wf show ?thesis
    by (simp add: trim_def is_whitespace_def mm_abs_insert)
qed

text \<open>
  C10. \<^verbatim>\<open>view_all_entries\<close> prints one line \<^verbatim>\<open>key value\<close> per stored value and
  nothing else. Whatever order the hash map yields its keys in, the values of each key
  appear in insertion order, and the multiset of printed pairs is the same for every
  order.
\<close>

theorem view_all_entries_output:
  assumes "mm_iteration_order ks (db s)" and "mm_wf (db s)"
  shows "stdout (view_all_entries ks s) =
           stdout s @ concat (map (\<lambda>(k, v). k @ '' '' @ v @ [nl]) (mm_entries ks (db s))) \<and>
         (\<forall>k. filter (\<lambda>e. fst e = k) (mm_entries ks (db s)) = map (Pair k) (mm_abs (db s) k)) \<and>
         (\<forall>ks'. mm_iteration_order ks' (db s) \<longrightarrow>
            mset (mm_entries ks' (db s)) = mset (mm_entries ks (db s)))"
proof -
  have "stdout (view_all_entries ks s) =
          stdout s @ concat (map (\<lambda>(k, v). k @ '' '' @ v @ [nl]) (mm_entries ks (db s)))"
    by (simp add: view_all_entries_eq)
  moreover have "\<forall>k. filter (\<lambda>e. fst e = k) (mm_entries ks (db s)) = map (Pair k) (mm_abs (db s) k)"
    using mm_entries_filter_key [OF assms] by blast
  moreover have "\<forall>ks'. mm_iteration_order ks' (db s) \<longrightarrow>
      mset (mm_entries ks' (db s)) = mset (mm_entries ks (db s))"
    using mm_entries_order_independent assms(1) by blast
  ultimately show ?thesis by blast
qed

theorem view_all_entries_output_witness:
  "stdout (view_all_entries [''b'', ''a''] \<lparr>stdin = [], stdout = [],
      db = mm_insert ''a'' ''3'' (mm_insert ''b'' ''2'' (mm_insert ''a'' ''1'' mm_new))\<rparr>) =
   ''b 2\<newline>a 1\<newline>a 3\<newline>''"
proof -
  let ?m = "mm_insert ''a'' ''3'' (mm_insert ''b'' ''2'' (mm_insert ''a'' ''1'' mm_new))"
  let ?s = "\<lparr>stdin = [], stdout = [], db = ?m\<rparr>"
  have o: "mm_iteration_order [''b'', ''a''] (db ?s)"
    by (simp add: mm_iteration_order_def mm_insert_def mm_new_def insert_commute)
  have wf: "mm_wf (db ?s)" by (simp, intro mm_wf_insert mm_wf_new)
  have "stdout (view_all_entries [''b'', ''a''] ?s) =
        [] @ concat (map (\<lambda>(k, v). k @ '' '' @ v @ [nl]) (mm_entries [''b'', ''a''] ?m))"
    using view_all_entries_output [OF o wf] by simp
  then show ?thesis by (simp add: mm_entries_def mm_iter_def mm_insert_def mm_new_def)
qed

section \<open>The menu\<close>

text \<open>
  C11. Menu round trip: for every option \<open>i\<close> of \<^verbatim>\<open>OPTIONS\<close>,
  \<^verbatim>\<open>display_prompt\<close> prints the line \<open>i+1) label\<close>, and typing the number
  \<open>i+1\<close> it shows selects the \<^verbatim>\<open>Choice\<close> whose discriminant is \<open>i\<close>.
\<close>

theorem menu_roundtrip:
  assumes "i < length options"
  shows "(\<exists>pre post. stdout (display_prompt w) =
            stdout w @ pre @ show_nat (i + 1) @ '') '' @ options ! i @ [nl] @ post) \<and>
         (\<exists>ch. select_choice (parse_choice (show_nat (i + 1))) = Inr ch \<and> discriminant ch = i)"
proof
  let ?f = "\<lambda>i. show_nat (i + 1) @ '') '' @ options ! i @ [nl]"
  let ?A = "concat (map ?f (take i [0..<length options]))"
  let ?B = "concat (map ?f (drop (Suc i) [0..<length options]))"
  have "stdout (display_prompt w) =
        stdout w @ ''Please choose: '' @ [nl] @ concat (map ?f [0..<length options])"
    by (subst display_prompt_eq) simp
  also have "concat (map ?f [0..<length options]) = ?A @ ?f i @ ?B"
    using assms concat_map_nth_split [of i "[0..<length options]" ?f] by simp
  finally show "\<exists>pre post. stdout (display_prompt w) =
            stdout w @ pre @ show_nat (i + 1) @ '') '' @ options ! i @ [nl] @ post"
    by (intro exI [of _ "''Please choose: '' @ [nl] @ ?A"] exI [of _ ?B]) simp
  show "\<exists>ch. select_choice (parse_choice (show_nat (i + 1))) = Inr ch \<and> discriminant ch = i"
    using menu_number_selects [OF assms] by blast
qed

theorem menu_roundtrip_witness:
  "(\<exists>pre post. stdout (display_prompt \<lparr>stdin = [], stdout = []\<rparr>) =
      pre @ ''3) Update value of a key'' @ [nl] @ post) \<and>
   select_choice (parse_choice ''3'') = Inr Update"
proof -
  have "2 < length options" by (simp add: options_def)
  note r = menu_roundtrip [OF this, of "\<lparr>stdin = [], stdout = []\<rparr>"]
  have "show_nat 3 = [char_of (51::nat)]" by (simp add: show_nat.simps)
  moreover have "char_of (51::nat) = CHR ''3''" by (simp add: char_of_def bit_simps)
  ultimately have s: "show_nat 3 = ''3''" by simp
  have o: "options ! 2 = ''Update value of a key''" by (simp add: options_def)
  obtain ch where ch: "select_choice (parse_choice (show_nat (2 + 1))) = Inr ch" "discriminant ch = 2"
    using r by blast
  have "show_nat (2 + 1) = ''3''" using s by simp
  with ch have "select_choice (parse_choice ''3'') = Inr ch" "discriminant ch = 2" by simp_all
  then have "select_choice (parse_choice ''3'') = Inr Update" by (cases ch) auto
  with r s o show ?thesis by auto
qed

text \<open>
  C12. How an invalid selection panics at line 56: a line that is not a number panics
  in \<^verbatim>\<open>unwrap\<close>; \<^verbatim>\<open>i32::MIN\<close> panics in the overflow check of
  \<^verbatim>\<open>choice - 1\<close>; every other out-of-range number panics in
  \<^verbatim>\<open>expect("get Choice enum from i32")\<close>.
\<close>

theorem invalid_choice_panic_kind:
  assumes "choice_invalid c"
  shows "select_choice c =
           (case c of None \<Rightarrow> Inl Unwrap_none
            | Some n \<Rightarrow> if sint n = i32_min then Inl Sub_overflow
                        else Inl (Expect_failed ''get Choice enum from i32''))"
proof (cases c)
  case None
  then show ?thesis by (simp add: select_choice_def)
next
  case (Some n)
  then show ?thesis
    using assms from_i32_pred_invalid [of n] by (simp add: select_choice_Some)
qed

theorem invalid_choice_panic_kind_witness:
  "choice_invalid (parse_choice ''-2147483648'') \<and>
   select_choice (parse_choice ''-2147483648'') = Inl Sub_overflow \<and>
   choice_invalid (parse_choice '' 6'') \<and>
   select_choice (parse_choice '' 6'') = Inl (Expect_failed ''get Choice enum from i32'') \<and>
   choice_invalid (parse_choice ''x'') \<and> select_choice (parse_choice ''x'') = Inl Unwrap_none"
proof -
  have m: "parse_choice ''-2147483648'' = Some (word_of_int (- 2147483648))"
    by (simp add: parse_choice_def parse_i32_def trim_def is_whitespace_def to_digit_def
        i32_min_def i32_max_def)
  have six: "parse_choice '' 6'' = Some 6"
    by (simp add: parse_choice_def parse_i32_def trim_def is_whitespace_def to_digit_def
        i32_min_def i32_max_def)
  have x: "parse_choice ''x'' = None"
    by (simp add: parse_choice_def parse_i32_def trim_def is_whitespace_def to_digit_def)
  have i1: "choice_invalid (parse_choice ''-2147483648'')"
    by (simp add: m choice_invalid_def options_def)
  have i2: "choice_invalid (parse_choice '' 6'')" by (simp add: six choice_invalid_def options_def)
  have i3: "choice_invalid (parse_choice ''x'')" by (simp add: x choice_invalid_def)
  show ?thesis
    using invalid_choice_panic_kind [OF i1] invalid_choice_panic_kind [OF i2]
      invalid_choice_panic_kind [OF i3] i1 i2 i3 m six x by (simp add: i32_min_def)
qed

text \<open>
  C13. One call of \<^verbatim>\<open>take_input_and_verify\<close> on a line that parses to a number
  \<open>n\<close> from 1 to 5: it prints \<^verbatim>\<open>"> "\<close>, consumes exactly that line and returns
  the \<^verbatim>\<open>Choice\<close> with discriminant \<open>n - 1\<close>.
\<close>

theorem valid_line_selects:
  assumes "stdin w = l @ nl # r" and "nl \<notin> set l"
    and "parse_choice l = Some n" and "1 \<le> sint n" and "sint n \<le> 5"
  shows "\<exists>ch. take_input_and_verify w =
                Some (Inr (ch, w\<lparr>stdin := r, stdout := stdout w @ ''> ''\<rparr>)) \<and>
              int (discriminant ch) = sint n - 1"
proof -
  have ok: "\<not> choice_invalid (parse_choice l)"
    using assms(3-5) by (simp add: choice_invalid_def options_def)
  obtain ch where sel: "select_choice (parse_choice l) = Inr ch"
    and run: "take_input_and_verify w = Some (Inr (ch, (print ''> '' w)\<lparr>stdin := r\<rparr>))"
    using take_input_and_verify_valid [OF assms(1,2) ok] by blast
  obtain n' ch' where "parse_choice l = Some n'" "select_choice (parse_choice l) = Inr ch'"
      "int (discriminant ch') = sint n' - 1"
    using select_choice_valid [OF ok] by blast
  with sel assms(3) have "int (discriminant ch) = sint n - 1" by simp
  with run show ?thesis by (auto simp: print_def)
qed

theorem valid_line_selects_witness:
  "take_input_and_verify \<lparr>stdin = '' 4 \<newline>rest'', stdout = []\<rparr> =
     Some (Inr (Delete, \<lparr>stdin = ''rest'', stdout = ''> ''\<rparr>))"
proof -
  have p: "parse_choice '' 4 '' = Some 4"
    by (simp add: parse_choice_def parse_i32_def trim_def is_whitespace_def to_digit_def
        i32_min_def i32_max_def)
  obtain ch where "take_input_and_verify \<lparr>stdin = '' 4 \<newline>rest'', stdout = []\<rparr> =
        Some (Inr (ch, \<lparr>stdin = ''rest'', stdout = [] @ ''> ''\<rparr>))"
      and "int (discriminant ch) = sint (4 :: 32 word) - 1"
    using valid_line_selects [of "\<lparr>stdin = '' 4 \<newline>rest'', stdout = []\<rparr>" "'' 4 ''" "''rest''" 4]
      p by auto
  moreover have "ch = Delete" using calculation(2) by (cases ch) simp_all
  ultimately show ?thesis by simp
qed

section \<open>Refinement of the specification's machine\<close>

text \<open>
  C14. Each handler implements its operation of the specification: from a well-formed
  store, the handler selected by any \<^verbatim>\<open>Choice\<close> returns without panicking, keeps
  the store well formed, and its effect on the abstract store and on the unread input
  is that of \<open>spec_op\<close> (insert appends, update replaces the first value of a present
  key and reads no value for an absent one, delete empties the key, select and view
  change nothing).
\<close>

theorem handlers_refine_spec_op:
  assumes "mm_wf (db s)"
  shows "\<exists>s'. dispatch ks ch s = Inr s' \<and> mm_wf (db s') \<and>
              (mm_abs (db s'), stdin s') = spec_op ch (mm_abs (db s)) (stdin s)"
proof -
  obtain s' where d: "dispatch ks ch s = Inr s'" using dispatch_no_panic [OF assms] by blast
  then show ?thesis using assms dispatch_wf dispatch_refines by blast
qed

theorem handlers_refine_spec_op_witness:
  "\<exists>s'. dispatch [] Update \<lparr>stdin = ''k\<newline>w\<newline>'', stdout = [],
          db = mm_insert ''k'' ''v2'' (mm_insert ''k'' ''v1'' mm_new)\<rparr> = Inr s' \<and>
        mm_abs (db s') ''k'' = [''w'', ''v2''] \<and> stdin s' = []"
proof -
  have wf: "mm_wf (db \<lparr>stdin = ''k\<newline>w\<newline>'', stdout = [],
          db = mm_insert ''k'' ''v2'' (mm_insert ''k'' ''v1'' mm_new)\<rparr>)"
    by (simp add: mm_wf_insert)
  have "spec_op Update (mm_abs (mm_insert ''k'' ''v2'' (mm_insert ''k'' ''v1'' mm_new))) ''k\<newline>w\<newline>'' =
        ((\<lambda>_. [])(''k'' := [''w'', ''v2'']), [])"
    by (simp add: machine_eval mm_abs_insert)
  then show ?thesis using handlers_refine_spec_op [OF wf, of "[]" Update] by auto
qed

text \<open>
  C15. One pass of \<^verbatim>\<open>program_loop\<close> refines one pass of the machine, in both
  directions: a pass that returns moves the abstract store and the unread input as
  \<open>spec_pass\<close> does, and every pass \<open>spec_pass\<close> admits (a valid selection line)
  is carried out by the program. The machine's menu is its own table of the five
  operations, so lines 29, 50 and 56 of the code are checked against it.
\<close>

theorem pass_refines_machine:
  assumes "mm_wf (db s)"
  shows "(loop_iteration ks s = Some (Inr s') \<longrightarrow>
            spec_pass (mm_abs (db s)) (stdin s) = Some (mm_abs (db s'), stdin s')) \<and>
         (spec_pass (mm_abs (db s)) (stdin s) = Some (S', r') \<longrightarrow>
            (\<exists>s''. loop_iteration ks s = Some (Inr s'') \<and> mm_abs (db s'') = S' \<and> stdin s'' = r'))"
  using assms loop_iteration_refines spec_pass_implemented by blast

theorem pass_refines_machine_witness:
  "\<exists>s'. loop_iteration [] (main_start ''1\<newline>k\<newline>v\<newline>'') = Some (Inr s') \<and>
        mm_abs (db s') ''k'' = [''v''] \<and> stdin s' = []"
proof -
  have wf: "mm_wf (db (main_start ''1\<newline>k\<newline>v\<newline>''))"
    by (simp add: main_start_def create_database_def)
  have "spec_pass (mm_abs (db (main_start ''1\<newline>k\<newline>v\<newline>'')))
          (stdin (main_start ''1\<newline>k\<newline>v\<newline>'')) = Some ((\<lambda>_. [])(''k'' := [''v'']), [])"
    by (simp add: machine_eval)
  then have "\<exists>s''. loop_iteration [] (main_start ''1\<newline>k\<newline>v\<newline>'') = Some (Inr s'') \<and>
      mm_abs (db s'') = (\<lambda>_. [])(''k'' := [''v'']) \<and> stdin s'' = []"
    using pass_refines_machine [OF wf, of "[]" undefined "(\<lambda>_. [])(''k'' := [''v''])" "[]"]
    by simp
  then show ?thesis by auto
qed

text \<open>
  C16. The program and the machine have the same reachable stores: every reachable
  state of the program is, on its abstract store and unread input, the result of some
  number of passes of the machine from the empty store on the whole input, and every
  result of a run of the machine is reached by the program.
\<close>

theorem program_refines_machine:
  "(reachable input s \<longrightarrow> (\<exists>n. spec_run n (\<lambda>_. []) input = Some (mm_abs (db s), stdin s))) \<and>
   (spec_run n (\<lambda>_. []) input = Some (S, r) \<longrightarrow>
      (\<exists>s'. reachable input s' \<and> mm_abs (db s') = S \<and> stdin s' = r))"
  using reachable_spec_run spec_run_reachable [OF reachable.start [of input]] by auto

theorem program_refines_machine_witness:
  "\<exists>s. reachable ''1\<newline>k\<newline>v\<newline>3\<newline>k\<newline>w\<newline>'' s \<and>
       mm_abs (db s) ''k'' = [''w''] \<and> stdin s = []"
proof -
  have "spec_run 2 (\<lambda>_. []) ''1\<newline>k\<newline>v\<newline>3\<newline>k\<newline>w\<newline>'' =
        Some ((\<lambda>_. [])(''k'' := [''w'']), [])"
    by (simp add: machine_eval numeral_eq_Suc)
  then have "\<exists>s. reachable ''1\<newline>k\<newline>v\<newline>3\<newline>k\<newline>w\<newline>'' s \<and>
       mm_abs (db s) = (\<lambda>_. [])(''k'' := [''w'']) \<and> stdin s = []"
    using program_refines_machine [of "''1\<newline>k\<newline>v\<newline>3\<newline>k\<newline>w\<newline>''" undefined 2
        "(\<lambda>_. [])(''k'' := [''w''])" "[]"]
    by simp
  then show ?thesis by auto
qed

end
